theory Spec2Isabelle
  imports Main "HOL-Library.Multiset" "HOL-Library.Product_Lexorder"
begin

section \<open>Values of the program\<close>

text \<open>
  The script works on what \<^verbatim>\<open>response.json()\<close> returns: Python values decoded from
  JSON. A dict is an association list in insertion order (the order matters when the
  records are written out); a Python dict has distinct keys, and a lookup takes the
  entry of the key. JSON numbers are the integers Discord sends (sizes, identifiers).

  A string is a text in its UTF-8 form: a char of the model is one byte, a character
  outside ASCII is a lead byte with its continuation bytes (\<^verbatim>\<open>0x80\<close> to \<^verbatim>\<open>0xBF\<close>). A JSON
  text can name a surrogate code point on its own (\<^verbatim>\<open>"\ud800"\<close>); \<^verbatim>\<open>response.json()\<close> keeps
  it as a character of the string. Here it is the three bytes that the UTF-8 scheme gives
  the code points \<^verbatim>\<open>D800\<close> to \<^verbatim>\<open>DFFF\<close>: \<^verbatim>\<open>0xED\<close>, a byte from \<^verbatim>\<open>0xA0\<close> to \<^verbatim>\<open>0xBF\<close>, and a
  continuation byte.
\<close>

datatype json =
    JNull
  | JBool bool
  | JInt int
  | JStr string
  | JArr "json list"
  | JObj "(string \<times> json) list"

text \<open>
  Exceptions are values. \<open>SystemExit n\<close> is \<^verbatim>\<open>sys.exit(n)\<close>; the others are the uncaught
  exceptions the code can raise, which end the process with a traceback and status 1.
\<close>

datatype error =
    SystemExit int
  | AttributeError
  | TypeError
  | ValueError
  | FileNotFoundError
  | FileExistsError
  | NotADirectoryError
  | IsADirectoryError
  | UnicodeEncodeError
  | RequestException

text \<open>Python truthiness, as \<^verbatim>\<open>not x\<close>, \<^verbatim>\<open>x or y\<close> and \<^verbatim>\<open>if x:\<close> use it.\<close>

fun truthy :: "json \<Rightarrow> bool" where
  "truthy JNull = False"
| "truthy (JBool b) = b"
| "truthy (JInt n) = (n \<noteq> 0)"
| "truthy (JStr s) = (s \<noteq> [])"
| "truthy (JArr xs) = (xs \<noteq> [])"
| "truthy (JObj kvs) = (kvs \<noteq> [])"

text \<open>
  \<^verbatim>\<open>d.get(key, default)\<close>: the value of the key when the dict has it (also when that
  value is null), the default otherwise. Only a dict has the method: on any other value
  the call raises AttributeError. \<^verbatim>\<open>d.get(key)\<close> is \<open>dict_get d key JNull\<close>.
\<close>

fun dict_get :: "json \<Rightarrow> string \<Rightarrow> json \<Rightarrow> error + json" where
  "dict_get (JObj kvs) k d = Inr (case map_of kvs k of None \<Rightarrow> d | Some v \<Rightarrow> v)"
| "dict_get _ k d = Inl AttributeError"

text \<open>The characters of a string: each lead byte with the continuation bytes after it.\<close>

definition is_continuation :: "char \<Rightarrow> bool" where
  "is_continuation c = (128 \<le> (of_char c :: nat) \<and> (of_char c :: nat) < 192)"

function code_points :: "string \<Rightarrow> string list" where
  "code_points [] = []"
| "code_points (c # cs) =
     (c # takeWhile is_continuation cs) # code_points (dropWhile is_continuation cs)"
  by pat_completeness auto
termination
  by (relation "measure length") (auto simp: length_dropWhile_le less_Suc_eq_le)

text \<open>
  What a \<^verbatim>\<open>for\<close> loop iterates over: the items of a list, the keys of a dict, the
  characters of a string; any other value is not iterable (TypeError).
\<close>

fun py_iter :: "json \<Rightarrow> error + json list" where
  "py_iter (JArr xs) = Inr xs"
| "py_iter (JObj kvs) = Inr (map (\<lambda>kv. JStr (fst kv)) kvs)"
| "py_iter (JStr s) = Inr (map JStr (code_points s))"
| "py_iter _ = Inl TypeError"

section \<open>The attachment extractor\<close>

text \<open>
  \<^verbatim>\<open>
  file_info = {
      "name": attachment.get("filename", "unknown"),
      "url": attachment.get("url", ""),
      "uploaded_at": timestamp,
      "author": author_name,
      "size": attachment.get("size", 0),
      "content_type": attachment.get("content_type", "")
  }
  \<close>
\<close>

definition file_info :: "json \<Rightarrow> json \<Rightarrow> json \<Rightarrow> error + json" where
  "file_info attachment timestamp author_name =
     (case dict_get attachment ''filename'' (JStr ''unknown'') of Inl e \<Rightarrow> Inl e | Inr name \<Rightarrow>
      (case dict_get attachment ''url'' (JStr '''') of Inl e \<Rightarrow> Inl e | Inr url \<Rightarrow>
      (case dict_get attachment ''size'' (JInt 0) of Inl e \<Rightarrow> Inl e | Inr sz \<Rightarrow>
      (case dict_get attachment ''content_type'' (JStr '''') of Inl e \<Rightarrow> Inl e | Inr ct \<Rightarrow>
        Inr (JObj [(''name'', name), (''url'', url), (''uploaded_at'', timestamp),
                   (''author'', author_name), (''size'', sz), (''content_type'', ct)])))))"

text \<open>
  The inner loop, \<^verbatim>\<open>for attachment in msg["attachments"]: ... attachments.append(file_info)\<close>,
  with the list built so far as accumulator.
\<close>

fun attachment_loop :: "json list \<Rightarrow> json \<Rightarrow> json \<Rightarrow> json list \<Rightarrow> error + json list" where
  "attachment_loop [] timestamp author_name attachments = Inr attachments"
| "attachment_loop (attachment # rest) timestamp author_name attachments =
     (case file_info attachment timestamp author_name of
        Inl e \<Rightarrow> Inl e
      | Inr info \<Rightarrow> attachment_loop rest timestamp author_name (attachments @ [info]))"

text \<open>
  \<^verbatim>\<open>author_name = author.get("global_name") or author.get("username") or "Unknown"\<close>:
  \<^verbatim>\<open>or\<close> returns its first truthy operand and evaluates the next one only when the
  previous one is falsy.
\<close>

definition author_name_of :: "json \<Rightarrow> error + json" where
  "author_name_of author =
     (case dict_get author ''global_name'' JNull of Inl e \<Rightarrow> Inl e | Inr g \<Rightarrow>
      if truthy g then Inr g
      else (case dict_get author ''username'' JNull of Inl e \<Rightarrow> Inl e | Inr u \<Rightarrow>
        Inr (if truthy u then u else JStr ''Unknown'')))"

text \<open>
  The body of the outer loop for one message: \<^verbatim>\<open>continue\<close> leaves the accumulator as it
  is; \<^verbatim>\<open>msg["attachments"]\<close> is the value \<^verbatim>\<open>msg.get("attachments")\<close> returned, since
  that value was truthy and so the key is there.
\<close>

definition extract_message :: "json \<Rightarrow> json list \<Rightarrow> error + json list" where
  "extract_message msg attachments =
     (case dict_get msg ''attachments'' JNull of Inl e \<Rightarrow> Inl e | Inr atts \<Rightarrow>
      if \<not> truthy atts then Inr attachments
      else
        (case dict_get msg ''author'' (JObj []) of Inl e \<Rightarrow> Inl e | Inr author \<Rightarrow>
        (case author_name_of author of Inl e \<Rightarrow> Inl e | Inr author_name \<Rightarrow>
        (case dict_get msg ''timestamp'' (JStr '''') of Inl e \<Rightarrow> Inl e | Inr timestamp \<Rightarrow>
        (case py_iter atts of Inl e \<Rightarrow> Inl e | Inr items \<Rightarrow>
          attachment_loop items timestamp author_name attachments)))))"

fun message_loop :: "json list \<Rightarrow> json list \<Rightarrow> error + json list" where
  "message_loop [] attachments = Inr attachments"
| "message_loop (msg # rest) attachments =
     (case extract_message msg attachments of
        Inl e \<Rightarrow> Inl e
      | Inr attachments' \<Rightarrow> message_loop rest attachments')"

text \<open>
  \<open>extract_attachments\<close> takes the value \<^verbatim>\<open>fetch_messages\<close> returned. The line it prints
  is part of \<open>main\<close> below.
\<close>

definition extract_attachments :: "json \<Rightarrow> error + json list" where
  "extract_attachments messages =
     (case py_iter messages of Inl e \<Rightarrow> Inl e | Inr msgs \<Rightarrow> message_loop msgs [])"

section \<open>Timestamps\<close>

text \<open>
  A \<^verbatim>\<open>datetime\<close> object: the calendar fields and the time zone, \<open>None\<close> for a naive
  datetime, \<open>Some off\<close> for an aware one with UTC offset \<open>off\<close> in microseconds.
\<close>

record datetime =
  year :: int
  month :: int
  day :: int
  hour :: int
  minute :: int
  second :: int
  microsecond :: int
  tzinfo :: "int option"

text \<open>\<^verbatim>\<open>datetime.min\<close> is \<^verbatim>\<open>datetime(1, 1, 1, 0, 0)\<close>, a naive datetime.\<close>

definition datetime_min :: datetime where
  "datetime_min = \<lparr>year = 1, month = 1, day = 1, hour = 0, minute = 0, second = 0,
                    microsecond = 0, tzinfo = None\<rparr>"

definition is_leap :: "int \<Rightarrow> bool" where
  "is_leap y = (y mod 4 = 0 \<and> (y mod 100 \<noteq> 0 \<or> y mod 400 = 0))"

definition days_in_month :: "int \<Rightarrow> int \<Rightarrow> int" where
  "days_in_month y m =
     (if m = 2 then (if is_leap y then 29 else 28)
      else if m = 4 \<or> m = 6 \<or> m = 9 \<or> m = 11 then 30 else 31)"

text \<open>
  The constructor checks the ranges of the fields (ValueError, here \<open>None\<close>); a time zone
  offset has to lie strictly between minus and plus 24 hours.
\<close>

definition new_datetime ::
  "int \<Rightarrow> int \<Rightarrow> int \<Rightarrow> int \<Rightarrow> int \<Rightarrow> int \<Rightarrow> int \<Rightarrow> int option \<Rightarrow> datetime option" where
  "new_datetime y m d hh mm ss us tz =
     (if 1 \<le> y \<and> y \<le> 9999 \<and> 1 \<le> m \<and> m \<le> 12 \<and> 1 \<le> d \<and> d \<le> days_in_month y m
         \<and> 0 \<le> hh \<and> hh < 24 \<and> 0 \<le> mm \<and> mm < 60 \<and> 0 \<le> ss \<and> ss < 60
         \<and> 0 \<le> us \<and> us < 1000000
         \<and> (case tz of None \<Rightarrow> True | Some off \<Rightarrow> - 86400000000 < off \<and> off < 86400000000)
      then Some \<lparr>year = y, month = m, day = d, hour = hh, minute = mm, second = ss,
                  microsecond = us, tzinfo = tz\<rparr>
      else None)"

subsection \<open>The library parser\<close>

text \<open>
  \<^verbatim>\<open>datetime.fromisoformat\<close> belongs to the Python library, not to the repository. The
  sorter below takes the parser as a parameter, and \<open>fromisoformat\<close> is the instance used
  for concrete inputs: the format the library documents for it (Python 3.7 to 3.10),
  \<^verbatim>\<open>YYYY-MM-DD[*HH[:MM[:SS[.fff[fff]]]][+HH:MM[:SS[.ffffff]]]]\<close>
  where \<^verbatim>\<open>*\<close> is any single character (one byte and the continuation bytes after it).
  \<open>None\<close> is ValueError. Later versions of the library accept further notations and give
  the same datetime on these.
\<close>

definition digit_val :: "char \<Rightarrow> int option" where
  "digit_val c =
     (let n = (of_char c :: int) in if 48 \<le> n \<and> n \<le> 57 then Some (n - 48) else None)"

fun digits_value :: "string \<Rightarrow> int \<Rightarrow> int option" where
  "digits_value [] acc = Some acc"
| "digits_value (c # cs) acc =
     (case digit_val c of None \<Rightarrow> None | Some d \<Rightarrow> digits_value cs (10 * acc + d))"

definition parse_digits :: "string \<Rightarrow> nat \<Rightarrow> int option" where
  "parse_digits s n = (if length s = n then digits_value s 0 else None)"

definition parse_isoformat_date :: "string \<Rightarrow> (int \<times> int \<times> int) option" where
  "parse_isoformat_date dstr =
     (if length dstr \<noteq> 10 \<or> dstr ! 4 \<noteq> CHR ''-'' \<or> dstr ! 7 \<noteq> CHR ''-'' then None
      else
       (case parse_digits (take 4 dstr) 4 of None \<Rightarrow> None | Some y \<Rightarrow>
       (case parse_digits (take 2 (drop 5 dstr)) 2 of None \<Rightarrow> None | Some m \<Rightarrow>
       (case parse_digits (drop 8 dstr) 2 of None \<Rightarrow> None | Some d \<Rightarrow>
          Some (y, m, d)))))"

text \<open>\<^verbatim>\<open>HH[:MM[:SS[.fff[fff]]]]\<close>, giving hour, minute, second and microsecond.\<close>

definition parse_fraction :: "string \<Rightarrow> int option" where
  "parse_fraction f =
     (if length f = 3 then map_option (\<lambda>n. n * 1000) (parse_digits f 3)
      else if length f = 6 then parse_digits f 6
      else None)"

definition parse_hh_mm_ss_ff :: "string \<Rightarrow> (int \<times> int \<times> int \<times> int) option" where
  "parse_hh_mm_ss_ff tstr =
     (case parse_digits (take 2 tstr) 2 of None \<Rightarrow> None | Some hh \<Rightarrow>
      if drop 2 tstr = [] then Some (hh, 0, 0, 0)
      else if tstr ! 2 \<noteq> CHR '':'' then None
      else
       (case parse_digits (take 2 (drop 3 tstr)) 2 of None \<Rightarrow> None | Some mm \<Rightarrow>
        if drop 5 tstr = [] then Some (hh, mm, 0, 0)
        else if tstr ! 5 \<noteq> CHR '':'' then None
        else
         (case parse_digits (take 2 (drop 6 tstr)) 2 of None \<Rightarrow> None | Some ss \<Rightarrow>
          if drop 8 tstr = [] then Some (hh, mm, ss, 0)
          else if tstr ! 8 \<noteq> CHR ''.'' then None
          else map_option (\<lambda>us. (hh, mm, ss, us)) (parse_fraction (drop 9 tstr)))))"

text \<open>
  The time part is split at the first sign character; what follows it is the UTC offset,
  of one of the lengths of \<^verbatim>\<open>HH:MM\<close>, \<^verbatim>\<open>HH:MM:SS\<close> and \<^verbatim>\<open>HH:MM:SS.ffffff\<close>.
\<close>

definition not_sign :: "char \<Rightarrow> bool" where
  "not_sign c = (c \<noteq> CHR ''+'' \<and> c \<noteq> CHR ''-'')"

definition parse_tz :: "string \<Rightarrow> int option option" where
  "parse_tz rest =
     (if rest = [] then Some None
      else
        let tzstr = tl rest in
        if length tzstr \<noteq> 5 \<and> length tzstr \<noteq> 8 \<and> length tzstr \<noteq> 15 then None
        else
         (case parse_hh_mm_ss_ff tzstr of None \<Rightarrow> None | Some (h, m, s, us) \<Rightarrow>
            let sgn = (if hd rest = CHR ''-'' then - 1 else 1)
            in Some (Some (sgn * ((h * 3600 + m * 60 + s) * 1000000 + us)))))"

definition parse_isoformat_time :: "string \<Rightarrow> ((int \<times> int \<times> int \<times> int) \<times> int option) option" where
  "parse_isoformat_time tstr =
     (case parse_hh_mm_ss_ff (takeWhile not_sign tstr) of None \<Rightarrow> None | Some comps \<Rightarrow>
     (case parse_tz (dropWhile not_sign tstr) of None \<Rightarrow> None | Some tz \<Rightarrow>
        Some (comps, tz)))"

definition fromisoformat :: "string \<Rightarrow> datetime option" where
  "fromisoformat date_string =
     (case parse_isoformat_date (take 10 date_string) of None \<Rightarrow> None | Some (y, m, d) \<Rightarrow>
      if length date_string \<le> 10 then new_datetime y m d 0 0 0 0 None
      else
       (case parse_isoformat_time (dropWhile is_continuation (drop 11 date_string)) of
          None \<Rightarrow> None
        | Some ((hh, mm, ss, us), tz) \<Rightarrow> new_datetime y m d hh mm ss us tz))"

subsection \<open>Comparing datetimes\<close>

text \<open>
  \<^verbatim>\<open>a < b\<close> on datetimes: two naive ones are compared field by field, two aware ones by
  the instants they denote (the local time minus the UTC offset), and comparing a naive
  with an aware one raises TypeError.
\<close>

definition days_before_year :: "int \<Rightarrow> int" where
  "days_before_year y = (let p = y - 1 in p * 365 + p div 4 - p div 100 + p div 400)"

definition days_before_month :: "int \<Rightarrow> int \<Rightarrow> int" where
  "days_before_month y m = sum_list (map (days_in_month y) [1..m - 1])"

definition naive_fields :: "datetime \<Rightarrow> int \<times> int \<times> int \<times> int \<times> int \<times> int \<times> int" where
  "naive_fields a = (year a, month a, day a, hour a, minute a, second a, microsecond a)"

definition local_us :: "datetime \<Rightarrow> int" where
  "local_us a =
     (let days = days_before_year (year a) + days_before_month (year a) (month a) + day a
      in (((days * 24 + hour a) * 60 + minute a) * 60 + second a) * 1000000 + microsecond a)"

definition utc_us :: "datetime \<Rightarrow> int" where
  "utc_us a = local_us a - (case tzinfo a of None \<Rightarrow> 0 | Some off \<Rightarrow> off)"

definition dt_lt :: "datetime \<Rightarrow> datetime \<Rightarrow> error + bool" where
  "dt_lt a b =
     (case (tzinfo a, tzinfo b) of
        (None, None) \<Rightarrow> Inr (naive_fields a < naive_fields b)
      | (Some oa, Some ob) \<Rightarrow> Inr (utc_us a < utc_us b)
      | _ \<Rightarrow> Inl TypeError)"

section \<open>The sorter\<close>

text \<open>
  \<^verbatim>\<open>"." in ts\<close>: a substring test on a string, a membership test on a list, a key test
  on a dict, and TypeError on a value that is not a container.
\<close>

fun contains_dot :: "json \<Rightarrow> error + bool" where
  "contains_dot (JStr s) = Inr (CHR ''.'' \<in> set s)"
| "contains_dot (JArr xs) = Inr (JStr ''.'' \<in> set xs)"
| "contains_dot (JObj kvs) = Inr (''.'' \<in> set (map fst kvs))"
| "contains_dot _ = Inl TypeError"

text \<open>
  \<^verbatim>\<open>ts.replace("Z", "+00:00")\<close> replaces every \<^verbatim>\<open>Z\<close> of a string; only a string has the
  method (AttributeError otherwise).
\<close>

definition replace_Z :: "string \<Rightarrow> string" where
  "replace_Z s = concat (map (\<lambda>c. if c = CHR ''Z'' then ''+00:00'' else [c]) s)"

fun str_replace_Z :: "json \<Rightarrow> error + string" where
  "str_replace_Z (JStr s) = Inr (replace_Z s)"
| "str_replace_Z _ = Inl AttributeError"

definition call_fromisoformat :: "(string \<Rightarrow> datetime option) \<Rightarrow> string \<Rightarrow> error + datetime" where
  "call_fromisoformat fromiso s = (case fromiso s of None \<Rightarrow> Inl ValueError | Some d \<Rightarrow> Inr d)"

text \<open>
  The two branches of \<^verbatim>\<open>if "." in ts\<close>, each
  \<^verbatim>\<open>return datetime.fromisoformat(ts.replace("Z", "+00:00"))\<close>.
\<close>

definition parse_with_microseconds :: "(string \<Rightarrow> datetime option) \<Rightarrow> json \<Rightarrow> error + datetime" where
  "parse_with_microseconds fromiso ts =
     (case str_replace_Z ts of Inl e \<Rightarrow> Inl e | Inr s \<Rightarrow> call_fromisoformat fromiso s)"

definition parse_without_microseconds :: "(string \<Rightarrow> datetime option) \<Rightarrow> json \<Rightarrow> error + datetime" where
  "parse_without_microseconds fromiso ts =
     (case str_replace_Z ts of Inl e \<Rightarrow> Inl e | Inr s \<Rightarrow> call_fromisoformat fromiso s)"

text \<open>The body of the \<^verbatim>\<open>try\<close> block of \<^verbatim>\<open>parse_timestamp\<close>.\<close>

definition parse_timestamp_body :: "(string \<Rightarrow> datetime option) \<Rightarrow> json \<Rightarrow> error + datetime" where
  "parse_timestamp_body fromiso item =
     (case dict_get item ''uploaded_at'' (JStr '''') of Inl e \<Rightarrow> Inl e | Inr ts \<Rightarrow>
      if truthy ts then
       (case contains_dot ts of Inl e \<Rightarrow> Inl e | Inr dot \<Rightarrow>
          if dot then parse_with_microseconds fromiso ts
          else parse_without_microseconds fromiso ts)
      else Inr datetime_min)"

text \<open>
  \<^verbatim>\<open>except (ValueError, TypeError): return datetime.min\<close>; any other exception leaves the
  function.
\<close>

definition except_ValueError_TypeError :: "error + datetime \<Rightarrow> error + datetime" where
  "except_ValueError_TypeError r =
     (case r of
        Inl ValueError \<Rightarrow> Inr datetime_min
      | Inl TypeError \<Rightarrow> Inr datetime_min
      | _ \<Rightarrow> r)"

definition parse_timestamp :: "(string \<Rightarrow> datetime option) \<Rightarrow> json \<Rightarrow> error + datetime" where
  "parse_timestamp fromiso item = except_ValueError_TypeError (parse_timestamp_body fromiso item)"

text \<open>
  \<^verbatim>\<open>sorted(attachments, key=parse_timestamp, reverse=True)\<close>. The library first calls the
  key function on every item, in order (\<open>keyed\<close>: the first exception leaves the call).
  It then orders the items with \<^verbatim>\<open><\<close> on the keys. A comparison of a naive with an
  aware key raises TypeError, and a comparison sort has to compare some naive key with
  some aware key when the list has both, so the call raises exactly when it has both.
  Otherwise \<^verbatim>\<open><\<close> orders the keys, and the result is the descending arrangement in which
  items with equal keys keep their order (the library guarantees stability, also with
  \<^verbatim>\<open>reverse=True\<close>): \<open>sort_desc\<close>, which inserts each item, from the last to the first,
  in front of the first item that is not newer.
\<close>

fun keyed :: "('a \<Rightarrow> error + 'k) \<Rightarrow> 'a list \<Rightarrow> error + ('k \<times> 'a) list" where
  "keyed f [] = Inr []"
| "keyed f (x # xs) =
     (case f x of Inl e \<Rightarrow> Inl e | Inr k \<Rightarrow>
     (case keyed f xs of Inl e \<Rightarrow> Inl e | Inr kxs \<Rightarrow> Inr ((k, x) # kxs)))"

definition key_older :: "datetime \<Rightarrow> datetime \<Rightarrow> bool" where
  "key_older a b = (case dt_lt a b of Inl e \<Rightarrow> False | Inr r \<Rightarrow> r)"

fun insert_desc :: "(datetime \<times> 'a) \<Rightarrow> (datetime \<times> 'a) list \<Rightarrow> (datetime \<times> 'a) list" where
  "insert_desc x [] = [x]"
| "insert_desc x (y # ys) =
     (if key_older (fst x) (fst y) then y # insert_desc x ys else x # y # ys)"

definition sort_desc :: "(datetime \<times> 'a) list \<Rightarrow> (datetime \<times> 'a) list" where
  "sort_desc kxs = foldr insert_desc kxs []"

definition naive :: "datetime \<Rightarrow> bool" where
  "naive k = (tzinfo k = None)"

definition mixed_keys :: "(datetime \<times> 'a) list \<Rightarrow> bool" where
  "mixed_keys kxs = (list_ex (\<lambda>kx. naive (fst kx)) kxs \<and> list_ex (\<lambda>kx. \<not> naive (fst kx)) kxs)"

definition sorted_reverse :: "('a \<Rightarrow> error + datetime) \<Rightarrow> 'a list \<Rightarrow> error + 'a list" where
  "sorted_reverse f xs =
     (case keyed f xs of Inl e \<Rightarrow> Inl e | Inr kxs \<Rightarrow>
      if mixed_keys kxs then Inl TypeError else Inr (map snd (sort_desc kxs)))"

definition sort_attachments :: "(string \<Rightarrow> datetime option) \<Rightarrow> json list \<Rightarrow> error + json list" where
  "sort_attachments fromiso attachments = sorted_reverse (parse_timestamp fromiso) attachments"

section \<open>The process and its surroundings\<close>

text \<open>
  What the script reads and changes: the environment variables, the lines printed so far,
  the HTTP requests sent so far, and the file system (the directories that exist and the
  content of every file). A path is the list of its components; the empty path is the
  root directory, which always exists. What is printed are texts the console takes: the
  values of the environment and the body of a response hold no surrogate.
\<close>

type_synonym path = "string list"

record request =
  req_url :: string
  req_headers :: "(string \<times> string) list"
  req_params :: "(string \<times> int) list"
  req_timeout :: int

record response =
  status_code :: int
  body_text :: string
  body_json :: "error + json"

record world =
  environ :: "string \<rightharpoonup> string"
  stdout :: "string list"
  sent :: "request list"
  dirs :: "path set"
  files :: "path \<rightharpoonup> string"

text \<open>
  The remote side is a parameter: what \<^verbatim>\<open>requests.get\<close> does with a request, a response
  or an exception of the transport. \<open>body_json\<close> is what \<^verbatim>\<open>response.json()\<close> gives for
  the body.
\<close>

type_synonym server = "request \<Rightarrow> error + response"

definition print :: "string \<Rightarrow> world \<Rightarrow> world" where
  "print line w = w\<lparr>stdout := stdout w @ [line]\<rparr>"

text \<open>
  \<^verbatim>\<open>str(n)\<close> of an integer, as an f-string formats it. \<open>digit_char\<close> is applied to the
  digits 0 to 9 only.
\<close>

definition digit_char :: "int \<Rightarrow> char" where
  "digit_char d = ''0123456789'' ! nat d"

function str_nonneg :: "int \<Rightarrow> string" where
  "str_nonneg n = (if n < 10 then [digit_char n] else str_nonneg (n div 10) @ [digit_char (n mod 10)])"
  by pat_completeness auto
termination
  by (relation "measure nat") auto

declare str_nonneg.simps [simp del]

definition str_int :: "int \<Rightarrow> string" where
  "str_int n = (if n < 0 then CHR ''-'' # str_nonneg (- n) else str_nonneg n)"

text \<open>\<^verbatim>\<open>len(x)\<close>: defined on lists, dicts and strings (the number of characters).\<close>

fun py_len :: "json \<Rightarrow> error + int" where
  "py_len (JArr xs) = Inr (int (length xs))"
| "py_len (JObj kvs) = Inr (int (length kvs))"
| "py_len (JStr s) = Inr (int (length (code_points s)))"
| "py_len _ = Inl TypeError"

subsection \<open>The credential loader\<close>

text \<open>
  \<^verbatim>\<open>os.environ.get(name)\<close> is \<open>None\<close> for a missing variable; \<^verbatim>\<open>not token\<close> holds for
  \<open>None\<close> and for the empty string.
\<close>

definition unset :: "string option \<Rightarrow> bool" where
  "unset v = (case v of None \<Rightarrow> True | Some s \<Rightarrow> s = [])"

definition get_env_vars :: "world \<Rightarrow> (error + string \<times> string) \<times> world" where
  "get_env_vars w =
     (let token = environ w ''DISCORD_BOT_TOKEN'';
          channel_id = environ w ''DISCORD_CHANNEL_ID''
      in if unset token then
           (Inl (SystemExit 1), print ''ERROR: DISCORD_BOT_TOKEN environment variable not set'' w)
         else if unset channel_id then
           (Inl (SystemExit 1), print ''ERROR: DISCORD_CHANNEL_ID environment variable not set'' w)
         else (Inr (the token, the channel_id), w))"

subsection \<open>The message fetcher\<close>

definition fetch_request :: "string \<Rightarrow> string \<Rightarrow> int \<Rightarrow> request" where
  "fetch_request token channel_id limit =
     \<lparr>req_url = ''https://discord.com/api/v10/channels/'' @ channel_id @ ''/messages'',
      req_headers = [(''Authorization'', ''Bot '' @ token),
                     (''Content-Type'', ''application/json'')],
      req_params = [(''limit'', min limit 100)],
      req_timeout = 30\<rparr>"

definition fetch_messages :: "server \<Rightarrow> string \<Rightarrow> string \<Rightarrow> int \<Rightarrow> world \<Rightarrow> (error + json) \<times> world" where
  "fetch_messages srv token channel_id limit w =
     (let w1 = print (''Fetching up to '' @ str_int limit @ '' messages from channel ''
                        @ channel_id @ ''...'') w;
          w2 = w1\<lparr>sent := sent w1 @ [fetch_request token channel_id limit]\<rparr>
      in case srv (fetch_request token channel_id limit) of
           Inl e \<Rightarrow> (Inl e, w2)
         | Inr response \<Rightarrow>
             if status_code response = 200 then
              (case body_json response of
                 Inl e \<Rightarrow> (Inl e, w2)
               | Inr messages \<Rightarrow>
                  (case py_len messages of
                     Inl e \<Rightarrow> (Inl e, w2)
                   | Inr n \<Rightarrow>
                       (Inr messages,
                        print (''Successfully fetched '' @ str_int n @ '' messages'') w2)))
             else if status_code response = 401 then
               (Inl (SystemExit 1), print ''ERROR: Invalid bot token (401 Unauthorized)'' w2)
             else if status_code response = 403 then
               (Inl (SystemExit 1),
                print ''ERROR: Bot lacks permission to read this channel (403 Forbidden)'' w2)
             else if status_code response = 404 then
               (Inl (SystemExit 1), print ''ERROR: Channel not found (404 Not Found)'' w2)
             else
               (Inl (SystemExit 1),
                print (''Response: '' @ body_text response)
                  (print (''ERROR: Discord API returned status ''
                            @ str_int (status_code response)) w2)))"

text \<open>The default of the parameter: \<^verbatim>\<open>limit: int = 100\<close>.\<close>

definition fetch_messages_default :: "server \<Rightarrow> string \<Rightarrow> string \<Rightarrow> world \<Rightarrow> (error + json) \<times> world" where
  "fetch_messages_default srv token channel_id w = fetch_messages srv token channel_id 100 w"

subsection \<open>The writer\<close>

text \<open>
  \<^verbatim>\<open>json.dump(attachments, f, indent=2, ensure_ascii=False, sort_keys=False)\<close> is a call of
  the library. Without \<^verbatim>\<open>ensure_ascii\<close> the encoder escapes the quote, the backslash and
  the control characters below \<^verbatim>\<open>0x20\<close>, and nothing else.
\<close>

definition hex_char :: "nat \<Rightarrow> char" where
  "hex_char d = ''0123456789abcdef'' ! d"

definition escape_char :: "char \<Rightarrow> string" where
  "escape_char c =
     (if c = CHR 0x22 then [CHR 0x5C, CHR 0x22]
      else if c = CHR 0x5C then [CHR 0x5C, CHR 0x5C]
      else if c = CHR 0x0A then [CHR 0x5C, CHR ''n'']
      else if c = CHR 0x0D then [CHR 0x5C, CHR ''r'']
      else if c = CHR 0x09 then [CHR 0x5C, CHR ''t'']
      else if c = CHR 0x08 then [CHR 0x5C, CHR ''b'']
      else if c = CHR 0x0C then [CHR 0x5C, CHR ''f'']
      else if (of_char c :: nat) < 32 then
        [CHR 0x5C, CHR ''u'', CHR ''0'', CHR ''0'',
         hex_char ((of_char c :: nat) div 16), hex_char ((of_char c :: nat) mod 16)]
      else [c])"

definition encode_basestring :: "string \<Rightarrow> string" where
  "encode_basestring s = CHR 0x22 # concat (map escape_char s) @ [CHR 0x22]"

definition newline_indent :: "nat \<Rightarrow> string" where
  "newline_indent level = CHR 0x0A # replicate (2 * level) CHR '' ''"

text \<open>
  The encoder is a generator: it yields the text in chunks, and \<^verbatim>\<open>json.dump\<close> writes
  every chunk to the file as it comes
  (\<^verbatim>\<open>for chunk in iterable: fp.write(chunk)\<close>). \<open>iterencode\<close> is the list of the chunks
  for a value at a nesting level. With an indent, every item of a non-empty list or
  dict stands on a line of its own, two spaces deeper than its container; the items are
  separated by a comma, a key from its value by a colon and a space, and the keys of a
  dict come in the order of the dict. In a list, the separator before an item is one
  chunk with the item when the item is a string, a number, a truth value or null, and
  a chunk of its own before a list or a dict.
\<close>

fun is_container :: "json \<Rightarrow> bool" where
  "is_container (JArr xs) = True"
| "is_container (JObj kvs) = True"
| "is_container _ = False"

fun iterencode :: "nat \<Rightarrow> json \<Rightarrow> string list"
  and iterencode_list :: "nat \<Rightarrow> string \<Rightarrow> json list \<Rightarrow> string list"
  and iterencode_dict :: "nat \<Rightarrow> string list \<Rightarrow> (string \<times> json) list \<Rightarrow> string list"
where
  "iterencode level JNull = [''null'']"
| "iterencode level (JBool b) = [if b then ''true'' else ''false'']"
| "iterencode level (JInt n) = [str_int n]"
| "iterencode level (JStr s) = [encode_basestring s]"
| "iterencode level (JArr xs) =
     (if xs = [] then [''[]'']
      else iterencode_list (Suc level) (''['' @ newline_indent (Suc level)) xs
           @ [newline_indent level, '']''])"
| "iterencode level (JObj kvs) =
     (if kvs = [] then [''{}'']
      else [''{'', newline_indent (Suc level)]
           @ iterencode_dict (Suc level) [] kvs
           @ [newline_indent level, ''}''])"
| "iterencode_list level buf [] = []"
| "iterencode_list level buf (x # xs) =
     (if is_container x then buf # iterencode level x
      else [buf @ concat (iterencode level x)])
     @ iterencode_list level ('','' @ newline_indent level) xs"
| "iterencode_dict level sep [] = []"
| "iterencode_dict level sep (kv # kvs) =
     sep @ [encode_basestring (fst kv), '': ''] @ iterencode level (snd kv)
     @ iterencode_dict level ['','' @ newline_indent level] kvs"

text \<open>The text of a value at a nesting level, and the whole text of a value.\<close>

definition encode :: "nat \<Rightarrow> json \<Rightarrow> string" where
  "encode level v = concat (iterencode level v)"

definition json_dumps :: "json \<Rightarrow> string" where
  "json_dumps v = encode 0 v"

text \<open>
  The file system calls. \<^verbatim>\<open>os.mkdir\<close> creates one directory: the path must not exist
  and its parent must be a directory. \<^verbatim>\<open>Path.mkdir(parents=True, exist_ok=True)\<close> is the
  library's wrapper: on FileNotFoundError it makes the parent first and tries again, and
  it ignores any other OSError when the path is a directory already.
\<close>

definition is_dir :: "world \<Rightarrow> path \<Rightarrow> bool" where
  "is_dir w p = (p = [] \<or> p \<in> dirs w)"

definition below_a_file :: "world \<Rightarrow> path \<Rightarrow> bool" where
  "below_a_file w p = list_ex (\<lambda>n. take n p \<in> dom (files w)) [0..<length p]"

definition parent :: "path \<Rightarrow> path" where
  "parent p = butlast p"

definition os_mkdir :: "path \<Rightarrow> world \<Rightarrow> error + world" where
  "os_mkdir p w =
     (if below_a_file w p then Inl NotADirectoryError
      else if is_dir w p \<or> p \<in> dom (files w) then Inl FileExistsError
      else if \<not> is_dir w (parent p) then Inl FileNotFoundError
      else Inr (w\<lparr>dirs := insert p (dirs w)\<rparr>))"

definition mkdir_exist_ok :: "path \<Rightarrow> world \<Rightarrow> error + world" where
  "mkdir_exist_ok p w =
     (case os_mkdir p w of
        Inr w' \<Rightarrow> Inr w'
      | Inl FileNotFoundError \<Rightarrow> Inl FileNotFoundError
      | Inl e \<Rightarrow> if is_dir w p then Inr w else Inl e)"

function mkdir_parents :: "path \<Rightarrow> world \<Rightarrow> error + world" where
  "mkdir_parents p w =
     (case os_mkdir p w of
        Inr w' \<Rightarrow> Inr w'
      | Inl e \<Rightarrow>
          if e = FileNotFoundError then
            (if parent p = p then Inl e
             else (case mkdir_parents (parent p) w of
                     Inl e' \<Rightarrow> Inl e'
                   | Inr w' \<Rightarrow> mkdir_exist_ok p w'))
          else if is_dir w p then Inr w else Inl e)"
  by pat_completeness auto
termination
proof (relation "measure (\<lambda>(p, w). length p)")
  show "wf (measure (\<lambda>(p, w). length p))"
    by simp
next
  fix p :: path and w :: world
  assume "parent p \<noteq> p"
  then have "p \<noteq> []"
    by (auto simp: parent_def)
  then show "((parent p, w), (p, w)) \<in> measure (\<lambda>(p, w). length p)"
    by (simp add: parent_def)
qed

declare mkdir_parents.simps [simp del]

text \<open>
  \<^verbatim>\<open>open(output_path, "w", encoding="utf-8")\<close> creates the file or empties it. The file
  is a text file in UTF-8 with the strict error handler: \<^verbatim>\<open>f.write(chunk)\<close> encodes the
  chunk, and on a chunk with a surrogate it raises UnicodeEncodeError and writes nothing
  of the chunk. Leaving the \<^verbatim>\<open>with\<close> block closes the file, also on an exception: the
  file then holds the chunks written before. A line feed is written as it is (the line
  separator of the systems the script runs on).
\<close>

definition open_w :: "path \<Rightarrow> world \<Rightarrow> error + world" where
  "open_w p w =
     (if below_a_file w p then Inl NotADirectoryError
      else if is_dir w p then Inl IsADirectoryError
      else if \<not> is_dir w (parent p) then Inl FileNotFoundError
      else Inr (w\<lparr>files := (files w)(p \<mapsto> [])\<rparr>))"

fun has_surrogate :: "string \<Rightarrow> bool" where
  "has_surrogate (c # d # cs) =
     ((c = CHR 0xED \<and> 160 \<le> (of_char d :: nat) \<and> (of_char d :: nat) \<le> 191)
      \<or> has_surrogate (d # cs))"
| "has_surrogate cs = False"

definition write_text :: "path \<Rightarrow> string \<Rightarrow> world \<Rightarrow> world" where
  "write_text p s w = w\<lparr>files := (files w)(p \<mapsto> the (files w p) @ s)\<rparr>"

fun write_chunks :: "path \<Rightarrow> string list \<Rightarrow> world \<Rightarrow> (error + unit) \<times> world" where
  "write_chunks p [] w = (Inr (), w)"
| "write_chunks p (chunk # chunks) w =
     (if has_surrogate chunk then (Inl UnicodeEncodeError, w)
      else write_chunks p chunks (write_text p chunk w))"

text \<open>\<^verbatim>\<open>str(output_path)\<close>, as the f-string prints the path.\<close>

definition path_str :: "path \<Rightarrow> string" where
  "path_str p = (if p = [] then ''/'' else concat (map (\<lambda>c. ''/'' @ c) p))"

definition write_json :: "json list \<Rightarrow> path \<Rightarrow> world \<Rightarrow> (error + unit) \<times> world" where
  "write_json attachments output_path w =
     (case mkdir_parents (parent output_path) w of
        Inl e \<Rightarrow> (Inl e, w)
      | Inr w1 \<Rightarrow>
         (case open_w output_path w1 of
            Inl e \<Rightarrow> (Inl e, w1)
          | Inr w2 \<Rightarrow>
             (case write_chunks output_path (iterencode 0 (JArr attachments)) w2 of
                (Inl e, w3) \<Rightarrow> (Inl e, w3)
              | (Inr u, w3) \<Rightarrow>
                  (Inr (),
                   print (''Wrote '' @ str_int (int (length attachments)) @ '' entries to ''
                            @ path_str output_path) w3))))"

subsection \<open>The main entry point\<close>

definition banner :: "world \<Rightarrow> world" where
  "banner w = print (replicate 50 CHR ''='') w"

definition main :: "(string \<Rightarrow> datetime option) \<Rightarrow> server \<Rightarrow> path \<Rightarrow> world \<Rightarrow> (error + unit) \<times> world" where
  "main fromiso srv script_dir w =
     (let w0 = banner (print ''Discord File Sync Script'' (banner w)) in
      case get_env_vars w0 of
        (Inl e, w1) \<Rightarrow> (Inl e, w1)
      | (Inr (token, channel_id), w1) \<Rightarrow>
          let output_path = script_dir @ [''docs'', ''files.json''] in
         (case fetch_messages srv token channel_id 100 w1 of
            (Inl e, w2) \<Rightarrow> (Inl e, w2)
          | (Inr messages, w2) \<Rightarrow>
             (case extract_attachments messages of
                Inl e \<Rightarrow> (Inl e, w2)
              | Inr extracted \<Rightarrow>
                  let w3 = print (''Extracted '' @ str_int (int (length extracted))
                                    @ '' attachments'') w2 in
                 (case sort_attachments fromiso extracted of
                    Inl e \<Rightarrow> (Inl e, w3)
                  | Inr attachments \<Rightarrow>
                     (case write_json attachments output_path w3 of
                        (Inl e, w4) \<Rightarrow> (Inl e, w4)
                      | (Inr u, w4) \<Rightarrow>
                          (Inr (), banner (print ''Sync complete!'' (banner w4))))))))"

text \<open>
  The exit status of the process: 0 when \<open>main\<close> returns, the argument of
  \<^verbatim>\<open>sys.exit\<close>, and 1 for an uncaught exception.
\<close>

definition exit_status :: "error + unit \<Rightarrow> int" where
  "exit_status r = (case r of Inr u \<Rightarrow> 0 | Inl (SystemExit n) \<Rightarrow> n | Inl e \<Rightarrow> 1)"

section \<open>Notions of the specification\<close>

text \<open>
  The data model of the specification: a message is an object whose \<^verbatim>\<open>attachments\<close>, when
  present, is a list of attachment objects and whose \<^verbatim>\<open>author\<close>, when present, is an
  object with an optional display name and an optional user name (a string or null).
\<close>

fun is_obj :: "json \<Rightarrow> bool" where
  "is_obj (JObj kvs) = True"
| "is_obj _ = False"

fun field :: "json \<Rightarrow> string \<Rightarrow> json option" where
  "field (JObj kvs) k = map_of kvs k"
| "field _ k = None"

definition field_or :: "json \<Rightarrow> string \<Rightarrow> json \<Rightarrow> json" where
  "field_or j k d = (case field j k of None \<Rightarrow> d | Some v \<Rightarrow> v)"

fun name_ok :: "json option \<Rightarrow> bool" where
  "name_ok None = True"
| "name_ok (Some JNull) = True"
| "name_ok (Some (JStr s)) = True"
| "name_ok (Some _) = False"

definition author_ok :: "json \<Rightarrow> bool" where
  "author_ok a = (is_obj a \<and> name_ok (field a ''global_name'') \<and> name_ok (field a ''username''))"

fun attachments_ok :: "json option \<Rightarrow> bool" where
  "attachments_ok None = True"
| "attachments_ok (Some (JArr as)) = list_all is_obj as"
| "attachments_ok (Some _) = False"

definition message_ok :: "json \<Rightarrow> bool" where
  "message_ok msg =
     (is_obj msg \<and> attachments_ok (field msg ''attachments'')
      \<and> (case field msg ''author'' of None \<Rightarrow> True | Some a \<Rightarrow> author_ok a))"

fun attachments_of :: "json \<Rightarrow> json list" where
  "attachments_of msg = (case field msg ''attachments'' of Some (JArr as) \<Rightarrow> as | _ \<Rightarrow> [])"

text \<open>
  The author of a message, as the specification resolves it: the global display name,
  else the user name, else the literal \<^verbatim>\<open>Unknown\<close>, where a name that is absent, null or
  empty counts as not there.
\<close>

fun given_name :: "json option \<Rightarrow> string option" where
  "given_name (Some (JStr s)) = (if s = [] then None else Some s)"
| "given_name _ = None"

definition resolved_name :: "json \<Rightarrow> json" where
  "resolved_name author =
     (case given_name (field author ''global_name'') of
        Some g \<Rightarrow> JStr g
      | None \<Rightarrow>
         (case given_name (field author ''username'') of
            Some u \<Rightarrow> JStr u
          | None \<Rightarrow> JStr ''Unknown''))"

definition author_of :: "json \<Rightarrow> json" where
  "author_of msg = field_or msg ''author'' (JObj [])"

text \<open>The record of one attachment of a message, and the records of a message.\<close>

definition record_of :: "json \<Rightarrow> json \<Rightarrow> json" where
  "record_of msg a =
     JObj [(''name'', field_or a ''filename'' (JStr ''unknown'')),
           (''url'', field_or a ''url'' (JStr '''')),
           (''uploaded_at'', field_or msg ''timestamp'' (JStr '''')),
           (''author'', resolved_name (author_of msg)),
           (''size'', field_or a ''size'' (JInt 0)),
           (''content_type'', field_or a ''content_type'' (JStr ''''))]"

definition records_of :: "json \<Rightarrow> json list" where
  "records_of msg = map (record_of msg) (attachments_of msg)"

text \<open>
  The sorter with the two branches of \<^verbatim>\<open>parse_timestamp\<close> unified into one parsing path,
  as the specification allows:
  \<^verbatim>\<open>if ts: return datetime.fromisoformat(ts.replace("Z", "+00:00"))\<close>.
\<close>

definition parse_timestamp_unified :: "(string \<Rightarrow> datetime option) \<Rightarrow> json \<Rightarrow> error + datetime" where
  "parse_timestamp_unified fromiso item =
     except_ValueError_TypeError
      (case dict_get item ''uploaded_at'' (JStr '''') of Inl e \<Rightarrow> Inl e | Inr ts \<Rightarrow>
       if truthy ts then
        (case str_replace_Z ts of Inl e \<Rightarrow> Inl e | Inr s \<Rightarrow> call_fromisoformat fromiso s)
       else Inr datetime_min)"

definition sort_attachments_unified :: "(string \<Rightarrow> datetime option) \<Rightarrow> json list \<Rightarrow> error + json list" where
  "sort_attachments_unified fromiso attachments =
     sorted_reverse (parse_timestamp_unified fromiso) attachments"

text \<open>The \<^verbatim>\<open>uploaded_at\<close> of a record of the data model is a string.\<close>

fun is_str :: "json \<Rightarrow> bool" where
  "is_str (JStr s) = True"
| "is_str _ = False"

definition uploaded_at_is_str :: "json \<Rightarrow> bool" where
  "uploaded_at_is_str r = (case field r ''uploaded_at'' of None \<Rightarrow> True | Some ts \<Rightarrow> is_str ts)"

text \<open>
  ISO-8601 notations of a calendar date and time: the fields padded with zeros, as Discord
  writes its timestamps.
\<close>

definition pad2 :: "int \<Rightarrow> string" where
  "pad2 n = [digit_char (n div 10), digit_char (n mod 10)]"

definition pad4 :: "int \<Rightarrow> string" where
  "pad4 n = pad2 (n div 100) @ pad2 (n mod 100)"

definition iso_date_time :: "int \<Rightarrow> int \<Rightarrow> int \<Rightarrow> int \<Rightarrow> int \<Rightarrow> int \<Rightarrow> string" where
  "iso_date_time y m d hh mm ss =
     pad4 y @ ''-'' @ pad2 m @ ''-'' @ pad2 d @ ''T'' @ pad2 hh @ '':'' @ pad2 mm @ '':'' @ pad2 ss"

definition valid_date_time :: "int \<Rightarrow> int \<Rightarrow> int \<Rightarrow> int \<Rightarrow> int \<Rightarrow> int \<Rightarrow> bool" where
  "valid_date_time y m d hh mm ss =
     (1 \<le> y \<and> y \<le> 9999 \<and> 1 \<le> m \<and> m \<le> 12 \<and> 1 \<le> d \<and> d \<le> days_in_month y m
      \<and> 0 \<le> hh \<and> hh < 24 \<and> 0 \<le> mm \<and> mm < 60 \<and> 0 \<le> ss \<and> ss < 60)"

text \<open>
  A consistent file system: a path is not both a directory and a file, and what exists
  lies in a directory.
\<close>

definition fs_ok :: "world \<Rightarrow> bool" where
  "fs_ok w =
     ((\<forall>p \<in> dirs w. is_dir w (parent p) \<and> p \<notin> dom (files w))
      \<and> (\<forall>p \<in> dom (files w). p \<noteq> [] \<and> is_dir w (parent p)))"

text \<open>The prefixes of a path: the path itself and the directories above it.\<close>

definition ancestors :: "path \<Rightarrow> path list" where
  "ancestors p = map (\<lambda>n. take n p) [0..<Suc (length p)]"

text \<open>A dict without one of its keys.\<close>

fun without_key :: "string \<Rightarrow> json \<Rightarrow> json" where
  "without_key k (JObj kvs) = JObj (filter (\<lambda>kv. fst kv \<noteq> k) kvs)"
| "without_key k j = j"

text \<open>
  A value all of whose strings, keys included, the UTF-8 codec can encode: none of them
  has a surrogate.
\<close>

fun utf8_ok :: "json \<Rightarrow> bool" where
  "utf8_ok (JStr s) = (\<not> has_surrogate s)"
| "utf8_ok (JArr xs) = list_all utf8_ok xs"
| "utf8_ok (JObj kvs) = list_all (\<lambda>kv. \<not> has_surrogate (fst kv) \<and> utf8_ok (snd kv)) kvs"
| "utf8_ok v = True"

subsection \<open>JSON texts\<close>

text \<open>
  What it is for a text to be JSON, and which value it denotes: a reader of the JSON
  grammar (RFC 8259). White space is the space, the line feed, the carriage return and
  the tab. A string stands between quotes; a quote, a backslash or a control character
  inside it has to be written as an escape, \<^verbatim>\<open>\"\<close>, \<^verbatim>\<open>\\\<close>, \<^verbatim>\<open>\/\<close>, \<^verbatim>\<open>\b\<close>, \<^verbatim>\<open>\f\<close>, \<^verbatim>\<open>\n\<close>,
  \<^verbatim>\<open>\r\<close>, \<^verbatim>\<open>\t\<close> or \<^verbatim>\<open>\u\<close> with four hexadecimal digits. The values here have integers
  for numbers, so the reader stops on a fraction or an exponent; it also stops on a
  \<^verbatim>\<open>\u\<close> escape of a character outside ASCII. The bytes of a character outside ASCII
  are taken as they stand. \<open>None\<close> is a text that is not read.
\<close>

definition is_ws :: "char \<Rightarrow> bool" where
  "is_ws c = (c = CHR '' '' \<or> c = CHR 0x0A \<or> c = CHR 0x0D \<or> c = CHR 0x09)"

definition skip_ws :: "string \<Rightarrow> string" where
  "skip_ws s = dropWhile is_ws s"

definition hex_val :: "char \<Rightarrow> nat option" where
  "hex_val c =
     (let n = (of_char c :: nat) in
      if 48 \<le> n \<and> n \<le> 57 then Some (n - 48)
      else if 97 \<le> n \<and> n \<le> 102 then Some (n - 87)
      else if 65 \<le> n \<and> n \<le> 70 then Some (n - 55)
      else None)"

definition json_hex4 :: "string \<Rightarrow> nat option" where
  "json_hex4 h =
     (case map hex_val h of
        [Some a, Some b, Some c, Some d] \<Rightarrow> Some (((a * 16 + b) * 16 + c) * 16 + d)
      | _ \<Rightarrow> None)"

definition json_escape :: "char \<Rightarrow> char option" where
  "json_escape e =
     (if e = CHR 0x22 then Some (CHR 0x22)
      else if e = CHR 0x5C then Some (CHR 0x5C)
      else if e = CHR ''/'' then Some (CHR ''/'')
      else if e = CHR ''b'' then Some (CHR 0x08)
      else if e = CHR ''f'' then Some (CHR 0x0C)
      else if e = CHR ''n'' then Some (CHR 0x0A)
      else if e = CHR ''r'' then Some (CHR 0x0D)
      else if e = CHR ''t'' then Some (CHR 0x09)
      else None)"

text \<open>
  The characters of a string after its opening quote, up to the closing quote, and the
  text after that quote.
\<close>

fun json_chars :: "string \<Rightarrow> (string \<times> string) option" where
  "json_chars [] = None"
| "json_chars (c # cs) =
     (if c = CHR 0x22 then Some ([], cs)
      else if c = CHR 0x5C then
        (case cs of
           [] \<Rightarrow> None
         | e # r \<Rightarrow>
            if e = CHR ''u'' then
              (case json_hex4 (take 4 r) of
                 None \<Rightarrow> None
               | Some n \<Rightarrow>
                  if n < 128
                  then map_option (\<lambda>(t, u). (char_of n # t, u)) (json_chars (drop 4 r))
                  else None)
            else
              (case json_escape e of
                 None \<Rightarrow> None
               | Some d \<Rightarrow> map_option (\<lambda>(t, u). (d # t, u)) (json_chars r)))
      else if (of_char c :: nat) < 32 then None
      else map_option (\<lambda>(t, u). (c # t, u)) (json_chars cs))"

text \<open>
  An integer: an optional minus sign and digits without a leading zero; and the three
  literal names.
\<close>

definition is_digit :: "char \<Rightarrow> bool" where
  "is_digit c = (48 \<le> (of_char c :: nat) \<and> (of_char c :: nat) \<le> 57)"

definition json_number :: "string \<Rightarrow> (json \<times> string) option" where
  "json_number s =
     (let neg = (take 1 s = ''-'');
          digits = takeWhile is_digit (if neg then drop 1 s else s);
          rest = dropWhile is_digit (if neg then drop 1 s else s)
      in if digits = [] \<or> (take 1 digits = ''0'' \<and> length digits \<noteq> 1)
            \<or> take 1 rest = ''.'' \<or> take 1 rest = ''e'' \<or> take 1 rest = ''E'' then None
         else map_option (\<lambda>n. (JInt (if neg then - n else n), rest)) (digits_value digits 0))"

definition json_literal :: "string \<Rightarrow> (json \<times> string) option" where
  "json_literal s =
     (if take 4 s = ''null'' then Some (JNull, drop 4 s)
      else if take 4 s = ''true'' then Some (JBool True, drop 4 s)
      else if take 5 s = ''false'' then Some (JBool False, drop 5 s)
      else None)"

text \<open>
  The reader of a value, of the elements of an array after its opening bracket (they
  come back as an array), and of the members of an object after its opening brace
  (they come back as an object), each with the text that follows what was read.
\<close>

datatype part = Value | Elements | Members

partial_function (option) json_parse :: "part \<Rightarrow> string \<Rightarrow> (json \<times> string) option" where
  "json_parse part s =
     (case part of
        Value \<Rightarrow>
         (case skip_ws s of
            [] \<Rightarrow> None
          | c # cs \<Rightarrow>
             if c = CHR ''['' then
               (if take 1 (skip_ws cs) = '']'' then Some (JArr [], drop 1 (skip_ws cs))
                else json_parse Elements cs)
             else if c = CHR ''{'' then
               (if take 1 (skip_ws cs) = ''}'' then Some (JObj [], drop 1 (skip_ws cs))
                else json_parse Members cs)
             else if c = CHR 0x22 then map_option (\<lambda>(t, r). (JStr t, r)) (json_chars cs)
             else if c = CHR ''-'' \<or> is_digit c then json_number (c # cs)
             else json_literal (c # cs))
      | Elements \<Rightarrow>
         Option.bind (json_parse Value s) (\<lambda>(v, r).
           if take 1 (skip_ws r) = '','' then
             Option.bind (json_parse Elements (drop 1 (skip_ws r))) (\<lambda>(vs, r').
               case vs of JArr xs \<Rightarrow> Some (JArr (v # xs), r') | _ \<Rightarrow> None)
           else if take 1 (skip_ws r) = '']'' then Some (JArr [v], drop 1 (skip_ws r))
           else None)
      | Members \<Rightarrow>
         (if take 1 (skip_ws s) \<noteq> [CHR 0x22] then None
          else
           (case json_chars (drop 1 (skip_ws s)) of
              None \<Rightarrow> None
            | Some (k, r) \<Rightarrow>
               if take 1 (skip_ws r) \<noteq> '':'' then None
               else
                 Option.bind (json_parse Value (drop 1 (skip_ws r))) (\<lambda>(v, r1).
                   if take 1 (skip_ws r1) = '','' then
                     Option.bind (json_parse Members (drop 1 (skip_ws r1))) (\<lambda>(m, r2).
                       case m of JObj kvs \<Rightarrow> Some (JObj ((k, v) # kvs), r2) | _ \<Rightarrow> None)
                   else if take 1 (skip_ws r1) = ''}''
                   then Some (JObj [(k, v)], drop 1 (skip_ws r1))
                   else None))))"

declare json_parse.simps [code]

text \<open>A JSON text is one value, with nothing but white space around it.\<close>

definition json_loads :: "string \<Rightarrow> json option" where
  "json_loads text =
     (case json_parse Value text of
        None \<Rightarrow> None
      | Some (v, r) \<Rightarrow> if skip_ws r = [] then Some v else None)"

section \<open>Example inputs\<close>

definition msg_january :: json where
  "msg_january =
     JObj [(''id'', JStr ''1001''),
           (''author'', JObj [(''username'', JStr ''ann''), (''global_name'', JStr ''Ann'')]),
           (''timestamp'', JStr ''2024-01-01T00:00:00.000000+00:00''),
           (''attachments'',
            JArr [JObj [(''filename'', JStr ''a.png''), (''url'', JStr ''https://cdn/a.png''),
                        (''size'', JInt 10), (''content_type'', JStr ''image/png'')]])]"

definition msg_june :: json where
  "msg_june =
     JObj [(''id'', JStr ''1002''),
           (''author'', JObj [(''username'', JStr ''bob''), (''global_name'', JStr '''')]),
           (''timestamp'', JStr ''2024-06-01T12:00:00Z''),
           (''attachments'',
            JArr [JObj [(''filename'', JStr ''b.txt''), (''url'', JStr ''https://cdn/b.txt''),
                        (''size'', JInt 20)]])]"

definition msg_no_timestamp :: json where
  "msg_no_timestamp =
     JObj [(''id'', JStr ''1003''),
           (''author'', JObj [(''global_name'', JNull)]),
           (''attachments'', JArr [JObj [(''filename'', JStr ''c.bin'')], JObj []])]"

definition msg_text_only :: json where
  "msg_text_only =
     JObj [(''id'', JStr ''1004''),
           (''timestamp'', JStr ''2024-03-01T08:30:00+00:00''),
           (''attachments'', JArr [])]"

definition rec_january :: json where
  "rec_january =
     JObj [(''name'', JStr ''a.png''), (''url'', JStr ''https://cdn/a.png''),
           (''uploaded_at'', JStr ''2024-01-01T00:00:00.000000+00:00''),
           (''author'', JStr ''Ann''), (''size'', JInt 10), (''content_type'', JStr ''image/png'')]"

definition rec_june :: json where
  "rec_june =
     JObj [(''name'', JStr ''b.txt''), (''url'', JStr ''https://cdn/b.txt''),
           (''uploaded_at'', JStr ''2024-06-01T12:00:00Z''),
           (''author'', JStr ''bob''), (''size'', JInt 20), (''content_type'', JStr '''')]"

definition rec_no_timestamp :: json where
  "rec_no_timestamp =
     JObj [(''name'', JStr ''c.bin''), (''url'', JStr ''''), (''uploaded_at'', JStr ''''),
           (''author'', JStr ''Unknown''), (''size'', JInt 0), (''content_type'', JStr '''')]"

definition rec_unnamed :: json where
  "rec_unnamed =
     JObj [(''name'', JStr ''unknown''), (''url'', JStr ''''), (''uploaded_at'', JStr ''''),
           (''author'', JStr ''Unknown''), (''size'', JInt 0), (''content_type'', JStr '''')]"

text \<open>A process environment with both variables, and a server that answers 200.\<close>

definition world0 :: world where
  "world0 =
     \<lparr>environ = [''DISCORD_BOT_TOKEN'' \<mapsto> ''secret'', ''DISCORD_CHANNEL_ID'' \<mapsto> ''42''],
      stdout = [], sent = [], dirs = {[''repo'']},
      files = [[''repo'', ''discord_sync.py''] \<mapsto> ''#!/usr/bin/env python3'']\<rparr>"

definition server_ok :: "json list \<Rightarrow> server" where
  "server_ok msgs = (\<lambda>req. Inr \<lparr>status_code = 200, body_text = '''', body_json = Inr (JArr msgs)\<rparr>)"

text \<open>A server that answers every request with one status and body.\<close>

definition server_status :: "int \<Rightarrow> string \<Rightarrow> server" where
  "server_status n body =
     (\<lambda>req. Inr \<lparr>status_code = n, body_text = body, body_json = Inl ValueError\<rparr>)"

text \<open>The file system after an earlier run: the output file is there already.\<close>

definition world1 :: world where
  "world1 =
     world0\<lparr>dirs := {[''repo''], [''repo'', ''docs'']},
            files := (files world0)([''repo'', ''docs'', ''files.json''] \<mapsto> ''[]'')\<rparr>"

text \<open>
  A record whose name has a quote, a backslash, a line feed and a character outside
  ASCII (U+00E9), and a record whose name has the surrogate U+D800 on its own.
\<close>

definition rec_quoted :: json where
  "rec_quoted =
     JObj [(''name'', JStr (''a'' @ [CHR 0x22] @ ''b'' @ [CHR 0x5C, CHR 0x0A, CHR 0xC3, CHR 0xA9])),
           (''url'', JStr ''https://cdn/q''), (''uploaded_at'', JStr ''2024-06-01T12:00:00Z''),
           (''author'', JStr ''bob''), (''size'', JInt 20), (''content_type'', JStr '''')]"

definition rec_surrogate :: json where
  "rec_surrogate =
     JObj [(''name'', JStr (''x'' @ [CHR 0xED, CHR 0xA0, CHR 0x80] @ ''y'')),
           (''url'', JStr ''https://cdn/s''), (''uploaded_at'', JStr ''2024-01-01T00:00:00Z''),
           (''author'', JStr ''Ann''), (''size'', JInt 10), (''content_type'', JStr '''')]"

text \<open>The message that gives the record with the surrogate.\<close>

definition msg_surrogate :: json where
  "msg_surrogate =
     JObj [(''id'', JStr ''1005''),
           (''author'', JObj [(''username'', JStr ''ann''), (''global_name'', JStr ''Ann'')]),
           (''timestamp'', JStr ''2024-01-01T00:00:00Z''),
           (''attachments'',
            JArr [JObj [(''filename'', JStr (''x'' @ [CHR 0xED, CHR 0xA0, CHR 0x80] @ ''y'')),
                        (''url'', JStr ''https://cdn/s''), (''size'', JInt 10)]])]"

section \<open>The extractor: proofs\<close>

lemma dict_get_field: "is_obj j \<Longrightarrow> dict_get j k d = Inr (field_or j k d)"
  by (cases j) (simp_all add: field_or_def)

lemma file_info_obj:
  "is_obj a \<Longrightarrow> file_info a ts au =
     Inr (JObj [(''name'', field_or a ''filename'' (JStr ''unknown'')),
                (''url'', field_or a ''url'' (JStr '''')),
                (''uploaded_at'', ts), (''author'', au),
                (''size'', field_or a ''size'' (JInt 0)),
                (''content_type'', field_or a ''content_type'' (JStr ''''))])"
  by (simp add: file_info_def dict_get_field)

lemma attachment_loop_objs:
  "list_all is_obj as \<Longrightarrow>
   attachment_loop as ts au acc =
     Inr (acc @ map (\<lambda>a. JObj [(''name'', field_or a ''filename'' (JStr ''unknown'')),
                (''url'', field_or a ''url'' (JStr '''')),
                (''uploaded_at'', ts), (''author'', au),
                (''size'', field_or a ''size'' (JInt 0)),
                (''content_type'', field_or a ''content_type'' (JStr ''''))]) as)"
  by (induction as arbitrary: acc) (simp_all add: file_info_obj)

lemma author_name_of_ok: "author_ok a \<Longrightarrow> author_name_of a = Inr (resolved_name a)"
proof -
  assume ok: "author_ok a"
  then obtain kvs where a: "a = JObj kvs"
    by (cases a) (simp_all add: author_ok_def)
  from ok have g: "name_ok (map_of kvs ''global_name'')" and u: "name_ok (map_of kvs ''username'')"
    by (simp_all add: author_ok_def a)
  show ?thesis
    using g u
    by (cases "map_of kvs ''global_name''" rule: name_ok.cases;
        cases "map_of kvs ''username''" rule: name_ok.cases)
       (simp_all add: a author_name_of_def resolved_name_def)
qed

lemma author_of_ok: "message_ok msg \<Longrightarrow> author_ok (author_of msg)"
  by (auto simp: message_ok_def author_of_def field_or_def author_ok_def split: option.splits)

lemma extract_message_ok:
  "message_ok msg \<Longrightarrow> extract_message msg acc = Inr (acc @ records_of msg)"
proof -
  assume ok: "message_ok msg"
  then obtain kvs where m: "msg = JObj kvs"
    by (cases msg) (simp_all add: message_ok_def)
  have au: "author_name_of (author_of msg) = Inr (resolved_name (author_of msg))"
    using ok by (simp add: author_name_of_ok author_of_ok)
  from ok have atts: "attachments_ok (map_of kvs ''attachments'')"
    by (simp add: message_ok_def m)
  then show ?thesis
  proof (cases "map_of kvs ''attachments''" rule: attachments_ok.cases)
    case 1
    then show ?thesis by (simp add: m extract_message_def records_of_def)
  next
    case (2 as)
    then show ?thesis
      using au atts
      by (cases "as = []")
         (simp_all add: m extract_message_def records_of_def record_of_def author_of_def
            field_or_def attachment_loop_objs)
  qed simp_all
qed

lemma message_loop_ok:
  "list_all message_ok msgs \<Longrightarrow> message_loop msgs acc = Inr (acc @ concat (map records_of msgs))"
  by (induction msgs arbitrary: acc) (simp_all add: extract_message_ok)

lemma extract_attachments_ok:
  "list_all message_ok msgs \<Longrightarrow> extract_attachments (JArr msgs) = Inr (concat (map records_of msgs))"
  by (simp add: extract_attachments_def message_loop_ok)

lemma message_ok_examples:
  "message_ok msg_january" "message_ok msg_june" "message_ok msg_no_timestamp"
  "message_ok msg_text_only"
  by (simp_all add: message_ok_def author_ok_def msg_january_def msg_june_def
      msg_no_timestamp_def msg_text_only_def)

lemma records_of_examples:
  "records_of msg_january = [rec_january]"
  "records_of msg_june = [rec_june]"
  "records_of msg_no_timestamp = [rec_no_timestamp, rec_unnamed]"
  "records_of msg_text_only = []"
  by (simp_all add: records_of_def record_of_def field_or_def author_of_def resolved_name_def
      msg_january_def msg_june_def msg_no_timestamp_def msg_text_only_def
      rec_january_def rec_june_def rec_no_timestamp_def rec_unnamed_def)

text \<open>
  C3. For a list of message objects, the extractor returns the records of the messages,
  message by message and attachment by attachment: one record for every attachment, with
  the name, url, size and content type of the attachment (or the defaults \<^verbatim>\<open>unknown\<close>,
  the empty string, 0 and the empty string), the timestamp of the message (or the empty
  string) and the resolved author. A message whose \<^verbatim>\<open>attachments\<close> is absent or empty
  gives no record, and no attachment is filtered out.
\<close>

theorem extract_attachments_records:
  assumes "list_all message_ok msgs"
  shows "extract_attachments (JArr msgs) = Inr (concat (map records_of msgs))
       \<and> (\<forall>m. field m ''attachments'' = None \<or> field m ''attachments'' = Some (JArr [])
              \<longrightarrow> records_of m = [])
       \<and> (\<forall>m. records_of m = map (record_of m) (attachments_of m))
       \<and> (\<forall>m a. record_of m a =
              JObj [(''name'', field_or a ''filename'' (JStr ''unknown'')),
                    (''url'', field_or a ''url'' (JStr '''')),
                    (''uploaded_at'', field_or m ''timestamp'' (JStr '''')),
                    (''author'', resolved_name (author_of m)),
                    (''size'', field_or a ''size'' (JInt 0)),
                    (''content_type'', field_or a ''content_type'' (JStr ''''))])"
proof -
  have "extract_attachments (JArr msgs) = Inr (concat (map records_of msgs))"
    using assms by (rule extract_attachments_ok)
  moreover have "\<forall>m. field m ''attachments'' = None \<or> field m ''attachments'' = Some (JArr [])
              \<longrightarrow> records_of m = []"
    by (auto simp: records_of_def)
  ultimately show ?thesis
    by (simp add: records_of_def record_of_def)
qed

theorem extract_attachments_records_witness:
  "list_all message_ok [msg_january, msg_text_only, msg_no_timestamp, msg_june]
   \<and> extract_attachments (JArr [msg_january, msg_text_only, msg_no_timestamp, msg_june])
       = Inr [rec_january, rec_no_timestamp, rec_unnamed, rec_june]"
proof -
  have ok: "list_all message_ok [msg_january, msg_text_only, msg_no_timestamp, msg_june]"
    by (simp add: message_ok_examples)
  show ?thesis
    using ok extract_attachments_records [OF ok]
    by (simp add: records_of_examples)
qed

text \<open>
  C10. The author resolution treats an empty global display name as an absent one: the
  resolved author is then the user name, and the literal \<^verbatim>\<open>Unknown\<close> when the user name
  is absent, null or empty too; the same name is resolved when the empty
  \<^verbatim>\<open>global_name\<close> is removed from the author, and it is the author of every record of
  the message.
\<close>

theorem empty_global_name_as_absent:
  assumes "message_ok msg"
    and "field (author_of msg) ''global_name'' = Some (JStr '''')"
  shows "author_name_of (author_of msg) =
           Inr (case given_name (field (author_of msg) ''username'') of
                  Some u \<Rightarrow> JStr u | None \<Rightarrow> JStr ''Unknown'')
       \<and> author_name_of (without_key ''global_name'' (author_of msg))
           = author_name_of (author_of msg)
       \<and> extract_message msg [] = Inr (records_of msg)
       \<and> (\<forall>r \<in> set (records_of msg).
             field r ''author'' =
               Some (case given_name (field (author_of msg) ''username'') of
                       Some u \<Rightarrow> JStr u | None \<Rightarrow> JStr ''Unknown''))"
proof -
  let ?a = "author_of msg"
  have ok: "author_ok ?a"
    using assms(1) by (rule author_of_ok)
  then obtain kvs where a: "?a = JObj kvs"
    by (cases ?a) (simp_all add: author_ok_def)
  have g: "map_of kvs ''global_name'' = Some (JStr '''')"
    using assms(2) by (simp add: a)
  have res: "resolved_name ?a =
      (case given_name (field ?a ''username'') of Some u \<Rightarrow> JStr u | None \<Rightarrow> JStr ''Unknown'')"
    using assms(2) by (simp add: resolved_name_def)
  have 1: "author_name_of ?a =
      Inr (case given_name (field ?a ''username'') of Some u \<Rightarrow> JStr u | None \<Rightarrow> JStr ''Unknown'')"
    using ok res by (simp add: author_name_of_ok)
  have u: "map_of (filter (\<lambda>kv. fst kv \<noteq> ''global_name'') kvs) ''username''
             = map_of kvs ''username''"
    by (induction kvs) auto
  have n: "map_of (filter (\<lambda>kv. fst kv \<noteq> ''global_name'') kvs) ''global_name'' = None"
    by (induction kvs) auto
  have 2: "author_name_of (without_key ''global_name'' ?a) = author_name_of ?a"
    by (simp add: a author_name_of_def u n g)
  have 3: "extract_message msg [] = Inr (records_of msg)"
    using assms(1) by (simp add: extract_message_ok)
  have 4: "\<forall>r \<in> set (records_of msg). field r ''author'' = Some (resolved_name ?a)"
    by (auto simp: records_of_def record_of_def)
  show ?thesis
    using 1 2 3 4 by (simp add: res)
qed

theorem empty_global_name_as_absent_witness:
  "message_ok msg_june
   \<and> field (author_of msg_june) ''global_name'' = Some (JStr '''')
   \<and> author_name_of (author_of msg_june) = Inr (JStr ''bob'')
   \<and> extract_message msg_june [] = Inr [rec_june]
   \<and> field rec_june ''author'' = Some (JStr ''bob'')"
proof -
  have ok: "message_ok msg_june"
    by (simp add: message_ok_examples)
  have g: "field (author_of msg_june) ''global_name'' = Some (JStr '''')"
    by (simp add: author_of_def field_or_def msg_june_def)
  have u: "field (author_of msg_june) ''username'' = Some (JStr ''bob'')"
    by (simp add: author_of_def field_or_def msg_june_def)
  show ?thesis
    using ok g empty_global_name_as_absent [OF ok g]
    by (simp add: u records_of_examples)
qed

section \<open>The sorter: proofs\<close>

lemma keyed_items: "keyed f xs = Inr kxs \<Longrightarrow> map snd kxs = xs"
  by (induction xs arbitrary: kxs) (auto split: sum.splits)

lemma keyed_cong: "(\<And>x. x \<in> set xs \<Longrightarrow> f x = g x) \<Longrightarrow> keyed f xs = keyed g xs"
  by (induction xs) (auto split: sum.splits)

lemma mset_insert_desc: "mset (insert_desc x ys) = add_mset x (mset ys)"
  by (induction ys) simp_all

lemma mset_sort_desc: "mset (sort_desc kxs) = mset kxs"
  by (induction kxs) (simp_all add: sort_desc_def mset_insert_desc)

text \<open>When the sorter returns, it returns a permutation of its input.\<close>

lemma sorted_reverse_perm: "sorted_reverse f xs = Inr ys \<Longrightarrow> mset ys = mset xs"
proof -
  assume r: "sorted_reverse f xs = Inr ys"
  then obtain kxs where k: "keyed f xs = Inr kxs" and ys: "ys = map snd (sort_desc kxs)"
    by (auto simp: sorted_reverse_def split: sum.splits if_splits)
  have "mset ys = image_mset snd (mset (sort_desc kxs))"
    by (simp add: ys)
  also have "\<dots> = mset (map snd kxs)"
    by (simp add: mset_sort_desc)
  finally show ?thesis
    by (simp add: keyed_items [OF k])
qed

lemma sort_attachments_perm:
  "sort_attachments fromiso xs = Inr ys \<Longrightarrow> mset ys = mset xs \<and> length ys = length xs"
  using sorted_reverse_perm [of "parse_timestamp fromiso" xs ys] mset_eq_length [of ys xs]
  by (simp add: sort_attachments_def)

text \<open>The extractor gives as many records as the messages have attachments.\<close>

lemma length_records:
  "length (concat (map records_of msgs)) = sum_list (map (\<lambda>m. length (attachments_of m)) msgs)"
  by (induction msgs) (simp_all add: records_of_def)

text \<open>
  C1. The sorter on a record with a valid Discord timestamp followed by a record with an
  empty one: the key of the first is an aware datetime, the key of the second is the
  naive \<^verbatim>\<open>datetime.min\<close>, and \<^verbatim>\<open>sorted\<close> raises TypeError when it compares
  them, where the claim has the second record sorted after the first.
\<close>

theorem sort_attachments_mixed_keys:
  "parse_timestamp fromisoformat rec_january =
     Inr \<lparr>year = 2024, month = 1, day = 1, hour = 0, minute = 0, second = 0,
          microsecond = 0, tzinfo = Some 0\<rparr>
   \<and> parse_timestamp fromisoformat rec_no_timestamp = Inr datetime_min
   \<and> sort_attachments fromisoformat [rec_january, rec_no_timestamp] = Inl TypeError"
  by code_simp

text \<open>
  C4. Two messages with three attachments, one message without a timestamp: the
  extractor gives the three records, the sorter raises TypeError on them, and the
  process ends without an output file, where the claim has an output array of length
  three.
\<close>

theorem pipeline_mixed_timestamps:
  "extract_attachments (JArr [msg_january, msg_no_timestamp])
     = Inr [rec_january, rec_no_timestamp, rec_unnamed]
   \<and> sort_attachments fromisoformat [rec_january, rec_no_timestamp, rec_unnamed] = Inl TypeError
   \<and> fst (main fromisoformat (server_ok [msg_january, msg_no_timestamp]) [''repo''] world0)
       = Inl TypeError
   \<and> files (snd (main fromisoformat (server_ok [msg_january, msg_no_timestamp]) [''repo''] world0))
        [''repo'', ''docs'', ''files.json''] = None"
  by code_simp

lemma parse_timestamp_unified_eq:
  "uploaded_at_is_str r \<Longrightarrow> parse_timestamp_unified fromiso r = parse_timestamp fromiso r"
proof (cases r)
  case (JObj kvs)
  assume "uploaded_at_is_str r"
  then show ?thesis
    by (cases "map_of kvs ''uploaded_at''"; cases "the (map_of kvs ''uploaded_at'')")
       (simp_all add: JObj uploaded_at_is_str_def parse_timestamp_unified_def parse_timestamp_def
          parse_timestamp_body_def parse_with_microseconds_def parse_without_microseconds_def)
qed (simp_all add: parse_timestamp_unified_def parse_timestamp_def parse_timestamp_body_def)

text \<open>
  C9. The branch of \<^verbatim>\<open>parse_timestamp\<close> for a string with a dot and the branch for a
  string without one are the same function, and on records whose \<^verbatim>\<open>uploaded_at\<close> is a
  string the sorter with the two branches unified into one parsing path returns what the
  sorter returns.
\<close>

theorem branches_unified:
  "parse_with_microseconds = parse_without_microseconds
   \<and> (list_all uploaded_at_is_str attachments \<longrightarrow>
        sort_attachments_unified fromiso attachments = sort_attachments fromiso attachments)"
proof -
  have "parse_with_microseconds = parse_without_microseconds"
    by (intro ext) (simp add: parse_with_microseconds_def parse_without_microseconds_def)
  moreover have "sort_attachments_unified fromiso attachments = sort_attachments fromiso attachments"
    if "list_all uploaded_at_is_str attachments"
  proof -
    have "keyed (parse_timestamp_unified fromiso) attachments = keyed (parse_timestamp fromiso) attachments"
      using that by (intro keyed_cong parse_timestamp_unified_eq) (simp add: list_all_iff)
    then show ?thesis
      by (simp add: sort_attachments_unified_def sort_attachments_def sorted_reverse_def)
  qed
  ultimately show ?thesis by blast
qed

theorem branches_unified_witness:
  "list_all uploaded_at_is_str [rec_january, rec_june, rec_unnamed]
   \<and> sort_attachments_unified fromisoformat [rec_january, rec_june, rec_unnamed]
       = sort_attachments fromisoformat [rec_january, rec_june, rec_unnamed]"
proof -
  have h: "list_all uploaded_at_is_str [rec_january, rec_june, rec_unnamed]"
    by (simp add: uploaded_at_is_str_def rec_january_def rec_june_def rec_unnamed_def)
  show ?thesis
    using h branches_unified [of "[rec_january, rec_june, rec_unnamed]" fromisoformat]
    by blast
qed

text \<open>
  Where all keys are naive or all keys are aware, \<^verbatim>\<open><\<close> is the order of a rank (the
  fields of a naive datetime, the instant of an aware one), and the sorter does what its
  docstring says: the result is in descending order of the keys, and records with equal
  keys keep the order they had.
\<close>

lemma sort_desc_Cons: "sort_desc (x # xs) = insert_desc x (sort_desc xs)"
  by (simp add: sort_desc_def)

lemma set_insert_desc: "set (insert_desc x ys) = insert x (set ys)"
  by (induction ys) auto

lemma set_sort_desc: "set (sort_desc kxs) = set kxs"
  by (induction kxs) (simp_all add: sort_desc_def set_insert_desc)

lemma insert_desc_sorted:
  fixes f :: "datetime \<Rightarrow> 'r::linorder"
  assumes "\<And>a b. a \<in> K \<Longrightarrow> b \<in> K \<Longrightarrow> key_older a b = (f a < f b)"
    and "fst x \<in> K" "fst ` set ys \<subseteq> K"
    and "sorted_wrt (\<lambda>a b. f (fst b) \<le> f (fst a)) ys"
  shows "sorted_wrt (\<lambda>a b. f (fst b) \<le> f (fst a)) (insert_desc x ys)"
  using assms(3,4)
proof (induction ys)
  case Nil
  then show ?case by simp
next
  case (Cons y ys)
  have o: "key_older (fst x) (fst y) = (f (fst x) < f (fst y))"
    using assms(1) [of "fst x" "fst y"] assms(2) Cons.prems(1) by simp
  show ?case
    using Cons by (auto simp: o set_insert_desc)
qed

lemma insert_desc_stable:
  fixes f :: "datetime \<Rightarrow> 'r::linorder"
  assumes "\<And>a b. a \<in> K \<Longrightarrow> b \<in> K \<Longrightarrow> key_older a b = (f a < f b)"
    and "fst x \<in> K" "fst ` set ys \<subseteq> K"
  shows "filter (\<lambda>z. f (fst z) = v) (insert_desc x ys) = filter (\<lambda>z. f (fst z) = v) (x # ys)"
  using assms(3)
proof (induction ys)
  case Nil
  then show ?case by simp
next
  case (Cons y ys)
  have o: "key_older (fst x) (fst y) = (f (fst x) < f (fst y))"
    using assms(1) [of "fst x" "fst y"] assms(2) Cons.prems(1) by simp
  show ?case
    using Cons by (auto simp: o)
qed

lemma sort_desc_sorted_stable:
  fixes f :: "datetime \<Rightarrow> 'r::linorder"
  assumes "\<And>a b. a \<in> K \<Longrightarrow> b \<in> K \<Longrightarrow> key_older a b = (f a < f b)"
    and "fst ` set kxs \<subseteq> K"
  shows "sorted_wrt (\<lambda>a b. f (fst b) \<le> f (fst a)) (sort_desc kxs)"
    and "filter (\<lambda>z. f (fst z) = v) (sort_desc kxs) = filter (\<lambda>z. f (fst z) = v) kxs"
  using assms(2)
proof (induction kxs)
  case Nil
  {
    case 1
    show ?case by (simp add: sort_desc_def)
  next
    case 2
    show ?case by (simp add: sort_desc_def)
  }
next
  case (Cons x kxs)
  {
    case 1
    then have k: "fst x \<in> K" "fst ` set (sort_desc kxs) \<subseteq> K" "fst ` set kxs \<subseteq> K"
      by (simp_all add: set_sort_desc)
    show ?case
      unfolding sort_desc_Cons
      using assms(1) k(1,2) Cons.IH(1) [OF k(3)] by (rule insert_desc_sorted)
  next
    case 2
    then have k: "fst x \<in> K" "fst ` set (sort_desc kxs) \<subseteq> K" "fst ` set kxs \<subseteq> K"
      by (simp_all add: set_sort_desc)
    have "filter (\<lambda>z. f (fst z) = v) (insert_desc x (sort_desc kxs))
        = filter (\<lambda>z. f (fst z) = v) (x # sort_desc kxs)"
      using assms(1) k(1,2) by (rule insert_desc_stable)
    then show ?case
      using Cons.IH(2) [OF k(3)] by (simp add: sort_desc_Cons)
  }
qed

lemma key_older_naive: "naive a \<Longrightarrow> naive b \<Longrightarrow> key_older a b = (naive_fields a < naive_fields b)"
  by (simp add: key_older_def dt_lt_def naive_def)

lemma key_older_aware: "\<not> naive a \<Longrightarrow> \<not> naive b \<Longrightarrow> key_older a b = (utc_us a < utc_us b)"
  by (auto simp: key_older_def dt_lt_def naive_def)

lemma sort_desc_uniform_keys:
  assumes "\<not> mixed_keys kxs"
  shows "sorted_wrt (\<lambda>a b. \<not> key_older (fst a) (fst b)) (sort_desc kxs)
      \<and> (k \<in> fst ` set kxs \<longrightarrow>
          filter (\<lambda>z. \<not> key_older (fst z) k \<and> \<not> key_older k (fst z)) (sort_desc kxs)
           = filter (\<lambda>z. \<not> key_older (fst z) k \<and> \<not> key_older k (fst z)) kxs)"
proof -
  from assms consider "fst ` set kxs \<subseteq> {a. naive a}" | "fst ` set kxs \<subseteq> {a. \<not> naive a}"
    by (auto simp: mixed_keys_def list_ex_iff)
  then show ?thesis
  proof cases
    case 1
    have r: "\<And>a b. a \<in> {a. naive a} \<Longrightarrow> b \<in> {a. naive a} \<Longrightarrow>
        key_older a b = (naive_fields a < naive_fields b)"
      by (simp add: key_older_naive)
    note s = sort_desc_sorted_stable [of "{a. naive a}" naive_fields, OF r 1]
    have e: "(\<not> key_older (fst z) k \<and> \<not> key_older k (fst z)) = (naive_fields (fst z) = naive_fields k)"
      if "z \<in> set kxs" "k \<in> fst ` set kxs" for z
    proof -
      have "naive (fst z)" "naive k"
        using that 1 by auto
      then show ?thesis
        by (auto simp: key_older_naive)
    qed
    have "sorted_wrt (\<lambda>a b. \<not> key_older (fst a) (fst b)) (sort_desc kxs)"
    proof (rule sorted_wrt_mono_rel [OF _ s(1)])
      fix a b
      assume "a \<in> set (sort_desc kxs)" "b \<in> set (sort_desc kxs)"
        "naive_fields (fst b) \<le> naive_fields (fst a)"
      moreover from this have "naive (fst a)" "naive (fst b)"
        using 1 by (auto simp: set_sort_desc)
      ultimately show "\<not> key_older (fst a) (fst b)"
        by (simp add: key_older_naive not_less)
    qed
    moreover have "filter (\<lambda>z. \<not> key_older (fst z) k \<and> \<not> key_older k (fst z)) (sort_desc kxs)
           = filter (\<lambda>z. \<not> key_older (fst z) k \<and> \<not> key_older k (fst z)) kxs"
      if "k \<in> fst ` set kxs"
    proof -
      have "filter (\<lambda>z. \<not> key_older (fst z) k \<and> \<not> key_older k (fst z)) (sort_desc kxs)
          = filter (\<lambda>z. naive_fields (fst z) = naive_fields k) (sort_desc kxs)"
        using e that by (intro filter_cong) (auto simp: set_sort_desc)
      also have "\<dots> = filter (\<lambda>z. naive_fields (fst z) = naive_fields k) kxs"
        by (rule s(2))
      also have "\<dots> = filter (\<lambda>z. \<not> key_older (fst z) k \<and> \<not> key_older k (fst z)) kxs"
        using e that by (intro filter_cong) auto
      finally show ?thesis .
    qed
    ultimately show ?thesis by blast
  next
    case 2
    have r: "\<And>a b. a \<in> {a. \<not> naive a} \<Longrightarrow> b \<in> {a. \<not> naive a} \<Longrightarrow>
        key_older a b = (utc_us a < utc_us b)"
      by (simp add: key_older_aware)
    note s = sort_desc_sorted_stable [of "{a. \<not> naive a}" utc_us, OF r 2]
    have e: "(\<not> key_older (fst z) k \<and> \<not> key_older k (fst z)) = (utc_us (fst z) = utc_us k)"
      if "z \<in> set kxs" "k \<in> fst ` set kxs" for z
    proof -
      have "\<not> naive (fst z)" "\<not> naive k"
        using that 2 by auto
      then show ?thesis
        by (auto simp: key_older_aware)
    qed
    have "sorted_wrt (\<lambda>a b. \<not> key_older (fst a) (fst b)) (sort_desc kxs)"
    proof (rule sorted_wrt_mono_rel [OF _ s(1)])
      fix a b
      assume "a \<in> set (sort_desc kxs)" "b \<in> set (sort_desc kxs)"
        "utc_us (fst b) \<le> utc_us (fst a)"
      moreover from this have "\<not> naive (fst a)" "\<not> naive (fst b)"
        using 2 by (auto simp: set_sort_desc)
      ultimately show "\<not> key_older (fst a) (fst b)"
        by (simp add: key_older_aware not_less)
    qed
    moreover have "filter (\<lambda>z. \<not> key_older (fst z) k \<and> \<not> key_older k (fst z)) (sort_desc kxs)
           = filter (\<lambda>z. \<not> key_older (fst z) k \<and> \<not> key_older k (fst z)) kxs"
      if "k \<in> fst ` set kxs"
    proof -
      have "filter (\<lambda>z. \<not> key_older (fst z) k \<and> \<not> key_older k (fst z)) (sort_desc kxs)
          = filter (\<lambda>z. utc_us (fst z) = utc_us k) (sort_desc kxs)"
        using e that by (intro filter_cong) (auto simp: set_sort_desc)
      also have "\<dots> = filter (\<lambda>z. utc_us (fst z) = utc_us k) kxs"
        by (rule s(2))
      also have "\<dots> = filter (\<lambda>z. \<not> key_older (fst z) k \<and> \<not> key_older k (fst z)) kxs"
        using e that by (intro filter_cong) auto
      finally show ?thesis .
    qed
    ultimately show ?thesis by blast
  qed
qed

lemma sort_attachments_uniform_keys:
  assumes "keyed (parse_timestamp fromiso) xs = Inr kxs" "\<not> mixed_keys kxs"
  shows "sort_attachments fromiso xs = Inr (map snd (sort_desc kxs))"
    and "sorted_wrt (\<lambda>a b. \<not> key_older (fst a) (fst b)) (sort_desc kxs)"
  using assms sort_desc_uniform_keys [OF assms(2)]
  by (simp_all add: sort_attachments_def sorted_reverse_def)

lemma sort_attachments_stable:
  assumes "\<not> mixed_keys kxs" "k \<in> fst ` set kxs"
  shows "filter (\<lambda>z. \<not> key_older (fst z) k \<and> \<not> key_older k (fst z)) (sort_desc kxs)
         = filter (\<lambda>z. \<not> key_older (fst z) k \<and> \<not> key_older k (fst z)) kxs"
  using assms sort_desc_uniform_keys [OF assms(1), of k] by blast

text \<open>
  Where the list has a record with an empty \<^verbatim>\<open>uploaded_at\<close> and a record whose timestamp
  parses to an aware datetime, as every timestamp with an offset does, the sorter raises
  TypeError.
\<close>

lemma keyed_member:
  "keyed f xs = Inr kxs \<Longrightarrow> x \<in> set xs \<Longrightarrow> \<exists>k. f x = Inr k \<and> (k, x) \<in> set kxs"
  by (induction xs arbitrary: kxs) (auto split: sum.splits)

lemma parse_timestamp_empty:
  "field b ''uploaded_at'' = Some (JStr '''') \<Longrightarrow> parse_timestamp fromiso b = Inr datetime_min"
  by (cases b)
     (simp_all add: parse_timestamp_def parse_timestamp_body_def except_ValueError_TypeError_def)

lemma sort_attachments_empty_and_aware:
  assumes "keyed (parse_timestamp fromiso) xs = Inr kxs"
    and "a \<in> set xs" "parse_timestamp fromiso a = Inr ka" "tzinfo ka \<noteq> None"
    and "b \<in> set xs" "field b ''uploaded_at'' = Some (JStr '''')"
  shows "sort_attachments fromiso xs = Inl TypeError"
proof -
  have "(ka, a) \<in> set kxs"
    using keyed_member [OF assms(1,2)] assms(3) by simp
  moreover have "(datetime_min, b) \<in> set kxs"
    using keyed_member [OF assms(1,5)] parse_timestamp_empty [OF assms(6), of fromiso] by simp
  ultimately have "mixed_keys kxs"
    using assms(4) by (force simp: mixed_keys_def list_ex_iff naive_def datetime_min_def)
  then show ?thesis
    using assms(1) by (simp add: sort_attachments_def sorted_reverse_def)
qed

section \<open>Timestamp notations: proofs\<close>

lemma digit_cases: "0 \<le> d \<Longrightarrow> d \<le> 9 \<Longrightarrow> d \<in> {0, 1, 2, 3, 4, 5, 6, 7, 8, 9 :: int}"
  by (simp; arith)

lemma digit_val_digit_char: "0 \<le> d \<Longrightarrow> d \<le> 9 \<Longrightarrow> digit_val (digit_char d) = Some d"
  using digit_cases [of d] by (auto simp: digit_val_def digit_char_def)

lemma digit_char_plain:
  "0 \<le> d \<Longrightarrow> d \<le> 9 \<Longrightarrow>
   digit_char d \<noteq> CHR ''Z'' \<and> digit_char d \<noteq> CHR ''+'' \<and> digit_char d \<noteq> CHR ''-''
   \<and> digit_char d \<noteq> CHR ''.''"
  using digit_cases [of d] by (auto simp: digit_char_def)

lemma digit_char_lead: "0 \<le> d \<Longrightarrow> d \<le> 9 \<Longrightarrow> \<not> is_continuation (digit_char d)"
  using digit_cases [of d] by (auto simp: digit_char_def is_continuation_def)

lemma digit_char_not_Z: "0 \<le> d \<Longrightarrow> d \<le> 9 \<Longrightarrow> CHR ''Z'' \<noteq> digit_char d"
  using digit_char_plain [of d] by auto

lemma pad2_digits:
  assumes "0 \<le> n" "n < 100"
  obtains a b where "pad2 n = [digit_char a, digit_char b]" "0 \<le> a" "a \<le> 9" "0 \<le> b" "b \<le> 9"
    "10 * a + b = n"
proof
  show "pad2 n = [digit_char (n div 10), digit_char (n mod 10)]" by (simp add: pad2_def)
  show "0 \<le> n div 10" "n div 10 \<le> 9" "0 \<le> n mod 10" "n mod 10 \<le> 9" "10 * (n div 10) + n mod 10 = n"
    using assms by auto
qed

lemma replace_Z_append: "replace_Z (s @ t) = replace_Z s @ replace_Z t"
  by (simp add: replace_Z_def)

lemma replace_Z_suffix: "replace_Z (s @ ''Z'') = replace_Z (s @ ''+00:00'')"
  by (simp add: replace_Z_def)

lemma parse_timestamp_str:
  assumes "field r ''uploaded_at'' = Some (JStr s)" "s \<noteq> []"
  shows "parse_timestamp fromiso r =
           (case fromiso (replace_Z s) of None \<Rightarrow> Inr datetime_min | Some d \<Rightarrow> Inr d)"
proof -
  obtain kvs where r: "r = JObj kvs"
    using assms(1) by (cases r) simp_all
  show ?thesis
    using assms
    by (simp add: r parse_timestamp_def parse_timestamp_body_def parse_with_microseconds_def
        parse_without_microseconds_def call_fromisoformat_def except_ValueError_TypeError_def
        split: option.splits)
qed

lemma digit_val_zero: "digit_val CHR ''0'' = Some 0"
  by (simp add: digit_val_def)

lemma parse_date_digits:
  assumes "\<forall>x \<in> set [y1, y2, y3, y4, m1, m2, d1, d2]. 0 \<le> x \<and> x \<le> 9"
  shows "parse_isoformat_date
           [digit_char y1, digit_char y2, digit_char y3, digit_char y4, CHR ''-'',
            digit_char m1, digit_char m2, CHR ''-'', digit_char d1, digit_char d2]
         = Some (10 * (10 * (10 * y1 + y2) + y3) + y4, 10 * m1 + m2, 10 * d1 + d2)"
  using assms
  by (simp add: parse_isoformat_date_def parse_digits_def digit_val_digit_char)

lemma parse_time_digits:
  assumes "\<forall>x \<in> set [h1, h2, n1, n2, s1, s2]. 0 \<le> x \<and> x \<le> 9"
    and "frac = [] \<or> frac = ''.000000''"
  shows "parse_hh_mm_ss_ff
           ([digit_char h1, digit_char h2, CHR '':'', digit_char n1, digit_char n2, CHR '':'',
             digit_char s1, digit_char s2] @ frac)
         = Some (10 * h1 + h2, 10 * n1 + n2, 10 * s1 + s2, 0)"
  using assms
  by (auto simp: parse_hh_mm_ss_ff_def parse_digits_def parse_fraction_def
      digit_val_digit_char digit_val_zero)

lemma parse_tz_utc: "parse_tz ''+00:00'' = Some (Some 0)"
  by (simp add: parse_tz_def parse_hh_mm_ss_ff_def parse_digits_def digit_val_zero)

lemma split_time_digits:
  assumes "\<forall>x \<in> set [h1, h2, n1, n2, s1, s2]. 0 \<le> x \<and> x \<le> 9"
    and "frac = [] \<or> frac = ''.000000''"
  shows "takeWhile not_sign
           ([digit_char h1, digit_char h2, CHR '':'', digit_char n1, digit_char n2, CHR '':'',
             digit_char s1, digit_char s2] @ frac @ ''+00:00'')
         = [digit_char h1, digit_char h2, CHR '':'', digit_char n1, digit_char n2, CHR '':'',
             digit_char s1, digit_char s2] @ frac"
    and "dropWhile not_sign
           ([digit_char h1, digit_char h2, CHR '':'', digit_char n1, digit_char n2, CHR '':'',
             digit_char s1, digit_char s2] @ frac @ ''+00:00'')
         = ''+00:00''"
  using assms by (auto simp: not_sign_def digit_char_plain)

lemma parse_isoformat_time_digits:
  assumes "\<forall>x \<in> set [h1, h2, n1, n2, s1, s2]. 0 \<le> x \<and> x \<le> 9"
    and "frac = [] \<or> frac = ''.000000''"
  shows "parse_isoformat_time
           ([digit_char h1, digit_char h2, CHR '':'', digit_char n1, digit_char n2, CHR '':'',
             digit_char s1, digit_char s2] @ frac @ ''+00:00'')
         = Some ((10 * h1 + h2, 10 * n1 + n2, 10 * s1 + s2, 0), Some 0)"
  unfolding parse_isoformat_time_def split_time_digits [OF assms]
  by (simp only: parse_time_digits [OF assms] parse_tz_utc option.case)

lemma fromisoformat_digits:
  assumes ymd: "\<forall>x \<in> set [y1, y2, y3, y4, m1, m2, d1, d2]. 0 \<le> x \<and> x \<le> 9"
    and hms: "\<forall>x \<in> set [h1, h2, n1, n2, s1, s2]. 0 \<le> x \<and> x \<le> 9"
    and frac: "frac = [] \<or> frac = ''.000000''"
  shows "fromisoformat
           ([digit_char y1, digit_char y2, digit_char y3, digit_char y4, CHR ''-'',
             digit_char m1, digit_char m2, CHR ''-'', digit_char d1, digit_char d2] @ ''T'' @
            [digit_char h1, digit_char h2, CHR '':'', digit_char n1, digit_char n2, CHR '':'',
             digit_char s1, digit_char s2] @ frac @ ''+00:00'')
         = new_datetime (10 * (10 * (10 * y1 + y2) + y3) + y4) (10 * m1 + m2) (10 * d1 + d2)
             (10 * h1 + h2) (10 * n1 + n2) (10 * s1 + s2) 0 (Some 0)"
proof -
  let ?date = "[digit_char y1, digit_char y2, digit_char y3, digit_char y4, CHR ''-'',
             digit_char m1, digit_char m2, CHR ''-'', digit_char d1, digit_char d2]"
  let ?time = "[digit_char h1, digit_char h2, CHR '':'', digit_char n1, digit_char n2, CHR '':'',
             digit_char s1, digit_char s2] @ frac @ ''+00:00''"
  have t: "take 10 (?date @ ''T'' @ ?time) = ?date"
    by simp
  have "\<not> is_continuation (digit_char h1)"
    using hms by (simp add: digit_char_lead)
  then have d: "dropWhile is_continuation (drop 11 (?date @ ''T'' @ ?time)) = ?time"
    by simp
  have l: "\<not> length (?date @ ''T'' @ ?time) \<le> 10"
    by simp
  show ?thesis
    unfolding fromisoformat_def t d
    by (simp only: parse_date_digits [OF ymd] parse_isoformat_time_digits [OF hms frac] l
        option.case prod.case if_False)
qed

lemma iso_date_time_parses:
  assumes v: "valid_date_time y m d hh mm ss"
    and frac: "frac = [] \<or> frac = ''.000000''"
  shows "fromisoformat (iso_date_time y m d hh mm ss @ frac @ ''+00:00'')
           = Some \<lparr>year = y, month = m, day = d, hour = hh, minute = mm, second = ss,
                   microsecond = 0, tzinfo = Some 0\<rparr>"
    and "CHR ''Z'' \<notin> set (iso_date_time y m d hh mm ss)"
proof -
  from v have b: "0 \<le> y div 100" "y div 100 < 100" "0 \<le> y mod 100" "y mod 100 < 100"
    "0 \<le> m" "m < 100" "0 \<le> d" "d < 100" "0 \<le> hh" "hh < 100" "0 \<le> mm" "mm < 100"
    "0 \<le> ss" "ss < 100"
    by (auto simp: valid_date_time_def days_in_month_def split: if_splits)
  obtain y1 y2 where y12: "pad2 (y div 100) = [digit_char y1, digit_char y2]"
    "0 \<le> y1" "y1 \<le> 9" "0 \<le> y2" "y2 \<le> 9" "10 * y1 + y2 = y div 100"
    using b by (elim pad2_digits [of "y div 100"]) auto
  obtain y3 y4 where y34: "pad2 (y mod 100) = [digit_char y3, digit_char y4]"
    "0 \<le> y3" "y3 \<le> 9" "0 \<le> y4" "y4 \<le> 9" "10 * y3 + y4 = y mod 100"
    using b by (elim pad2_digits [of "y mod 100"]) auto
  obtain m1 m2 where m12: "pad2 m = [digit_char m1, digit_char m2]"
    "0 \<le> m1" "m1 \<le> 9" "0 \<le> m2" "m2 \<le> 9" "10 * m1 + m2 = m"
    using b by (elim pad2_digits [of m]) auto
  obtain d1 d2 where d12: "pad2 d = [digit_char d1, digit_char d2]"
    "0 \<le> d1" "d1 \<le> 9" "0 \<le> d2" "d2 \<le> 9" "10 * d1 + d2 = d"
    using b by (elim pad2_digits [of d]) auto
  obtain h1 h2 where h12: "pad2 hh = [digit_char h1, digit_char h2]"
    "0 \<le> h1" "h1 \<le> 9" "0 \<le> h2" "h2 \<le> 9" "10 * h1 + h2 = hh"
    using b by (elim pad2_digits [of hh]) auto
  obtain n1 n2 where n12: "pad2 mm = [digit_char n1, digit_char n2]"
    "0 \<le> n1" "n1 \<le> 9" "0 \<le> n2" "n2 \<le> 9" "10 * n1 + n2 = mm"
    using b by (elim pad2_digits [of mm]) auto
  obtain s1 s2 where s12: "pad2 ss = [digit_char s1, digit_char s2]"
    "0 \<le> s1" "s1 \<le> 9" "0 \<le> s2" "s2 \<le> 9" "10 * s1 + s2 = ss"
    using b by (elim pad2_digits [of ss]) auto
  have iso: "iso_date_time y m d hh mm ss =
      [digit_char y1, digit_char y2, digit_char y3, digit_char y4, CHR ''-'',
       digit_char m1, digit_char m2, CHR ''-'', digit_char d1, digit_char d2] @ ''T'' @
      [digit_char h1, digit_char h2, CHR '':'', digit_char n1, digit_char n2, CHR '':'',
       digit_char s1, digit_char s2]"
    by (simp add: iso_date_time_def pad4_def y12 y34 m12 d12 h12 n12 s12)
  have ymd: "\<forall>x \<in> set [y1, y2, y3, y4, m1, m2, d1, d2]. 0 \<le> x \<and> x \<le> 9"
    using y12 y34 m12 d12 by simp
  have hms: "\<forall>x \<in> set [h1, h2, n1, n2, s1, s2]. 0 \<le> x \<and> x \<le> 9"
    using h12 n12 s12 by simp
  have yv: "10 * (10 * (10 * y1 + y2) + y3) + y4 = y"
  proof -
    have "10 * (10 * (10 * y1 + y2) + y3) + y4 = 100 * (10 * y1 + y2) + (10 * y3 + y4)"
      by simp
    also have "\<dots> = 100 * (y div 100) + y mod 100"
      by (simp only: y12(6) y34(6))
    also have "\<dots> = y"
      by simp
    finally show ?thesis .
  qed
  have new: "new_datetime y m d hh mm ss 0 (Some 0)
      = Some \<lparr>year = y, month = m, day = d, hour = hh, minute = mm, second = ss,
              microsecond = 0, tzinfo = Some 0\<rparr>"
    using v by (simp add: new_datetime_def valid_date_time_def)
  have "fromisoformat (iso_date_time y m d hh mm ss @ frac @ ''+00:00'')
      = new_datetime (10 * (10 * (10 * y1 + y2) + y3) + y4) (10 * m1 + m2) (10 * d1 + d2)
             (10 * h1 + h2) (10 * n1 + n2) (10 * s1 + s2) 0 (Some 0)"
    using fromisoformat_digits [OF ymd hms frac] by (simp add: iso)
  then show "fromisoformat (iso_date_time y m d hh mm ss @ frac @ ''+00:00'')
           = Some \<lparr>year = y, month = m, day = d, hour = hh, minute = mm, second = ss,
                   microsecond = 0, tzinfo = Some 0\<rparr>"
    by (simp only: yv m12(6) d12(6) h12(6) n12(6) s12(6) new)
  show "CHR ''Z'' \<notin> set (iso_date_time y m d hh mm ss)"
    using ymd hms by (simp add: iso digit_char_not_Z)
qed

lemma replace_Z_id: "CHR ''Z'' \<notin> set s \<Longrightarrow> replace_Z s = s"
  by (induction s) (auto simp: replace_Z_def)

lemma iso_date_time_nonempty: "iso_date_time y m d hh mm ss \<noteq> []"
  by (simp add: iso_date_time_def pad4_def pad2_def)

lemma field_record_of:
  "field (record_of m a) ''uploaded_at'' = Some (field_or m ''timestamp'' (JStr ''''))"
  by (simp add: record_of_def)

lemma january_key:
  "fromisoformat (replace_Z ''2024-01-01T00:00:00.000000+00:00'')
     = Some \<lparr>year = 2024, month = 1, day = 1, hour = 0, minute = 0, second = 0,
             microsecond = 0, tzinfo = Some 0\<rparr>"
  by code_simp

lemma june_key:
  "fromisoformat (replace_Z ''2024-06-01T12:00:00Z'')
     = Some \<lparr>year = 2024, month = 6, day = 1, hour = 12, minute = 0, second = 0,
             microsecond = 0, tzinfo = Some 0\<rparr>"
  by code_simp

lemma january_older_than_june:
  "key_older \<lparr>year = 2024, month = 1, day = 1, hour = 0, minute = 0, second = 0,
             microsecond = 0, tzinfo = Some 0\<rparr>
     \<lparr>year = 2024, month = 6, day = 1, hour = 12, minute = 0, second = 0,
             microsecond = 0, tzinfo = Some 0\<rparr>"
  by code_simp

lemma june_first:
  assumes "field r1 ''uploaded_at'' = Some (JStr ''2024-01-01T00:00:00.000000+00:00'')"
    and "field r2 ''uploaded_at'' = Some (JStr ''2024-06-01T12:00:00Z'')"
  shows "sort_attachments fromisoformat [r1, r2] = Inr [r2, r1]"
proof -
  have k1: "parse_timestamp fromisoformat r1 =
      Inr \<lparr>year = 2024, month = 1, day = 1, hour = 0, minute = 0, second = 0,
             microsecond = 0, tzinfo = Some 0\<rparr>"
    using parse_timestamp_str [OF assms(1), of fromisoformat] by (simp add: january_key)
  have k2: "parse_timestamp fromisoformat r2 =
      Inr \<lparr>year = 2024, month = 6, day = 1, hour = 12, minute = 0, second = 0,
             microsecond = 0, tzinfo = Some 0\<rparr>"
    using parse_timestamp_str [OF assms(2), of fromisoformat] by (simp add: june_key)
  show ?thesis
    by (simp add: sort_attachments_def sorted_reverse_def k1 k2 mixed_keys_def naive_def
        sort_desc_def january_older_than_june)
qed

text \<open>
  C2. The three notations of one instant, with fractional seconds, without them, and
  without them with a trailing \<^verbatim>\<open>Z\<close>, give the same key, the aware datetime of that
  instant; a trailing \<^verbatim>\<open>Z\<close> is read as the offset \<^verbatim>\<open>+00:00\<close> whatever the parser
  accepts; and of two messages with one attachment each, the first of
  \<^verbatim>\<open>2024-01-01T00:00:00.000000+00:00\<close> and the second of \<^verbatim>\<open>2024-06-01T12:00:00Z\<close>,
  the attachment of the second comes first.
\<close>

theorem timestamp_notations_equivalent:
  assumes "valid_date_time y m d hh mm ss"
    and "field r1 ''uploaded_at'' = Some (JStr (iso_date_time y m d hh mm ss @ ''.000000+00:00''))"
    and "field r2 ''uploaded_at'' = Some (JStr (iso_date_time y m d hh mm ss @ ''+00:00''))"
    and "field r3 ''uploaded_at'' = Some (JStr (iso_date_time y m d hh mm ss @ ''Z''))"
  shows "parse_timestamp fromisoformat r1 =
           Inr \<lparr>year = y, month = m, day = d, hour = hh, minute = mm, second = ss,
                microsecond = 0, tzinfo = Some 0\<rparr>
       \<and> parse_timestamp fromisoformat r2 = parse_timestamp fromisoformat r1
       \<and> parse_timestamp fromisoformat r3 = parse_timestamp fromisoformat r1
       \<and> (\<forall>fromiso s r r'. field r ''uploaded_at'' = Some (JStr (s @ ''Z''))
              \<and> field r' ''uploaded_at'' = Some (JStr (s @ ''+00:00''))
            \<longrightarrow> parse_timestamp fromiso r = parse_timestamp fromiso r')
       \<and> (\<forall>msg1 msg2 a1 a2. message_ok msg1 \<and> message_ok msg2
              \<and> field msg1 ''timestamp'' = Some (JStr ''2024-01-01T00:00:00.000000+00:00'')
              \<and> attachments_of msg1 = [a1]
              \<and> field msg2 ''timestamp'' = Some (JStr ''2024-06-01T12:00:00Z'')
              \<and> attachments_of msg2 = [a2]
            \<longrightarrow> extract_attachments (JArr [msg1, msg2]) = Inr [record_of msg1 a1, record_of msg2 a2]
              \<and> sort_attachments fromisoformat [record_of msg1 a1, record_of msg2 a2]
                  = Inr [record_of msg2 a2, record_of msg1 a1])"
proof -
  let ?iso = "iso_date_time y m d hh mm ss"
  let ?k = "\<lparr>year = y, month = m, day = d, hour = hh, minute = mm, second = ss,
                microsecond = 0, tzinfo = Some 0\<rparr>"
  have noZ: "replace_Z ?iso = ?iso"
    using iso_date_time_parses(2) [OF assms(1), of "[]"] by (simp add: replace_Z_id)
  have p1: "fromisoformat (?iso @ ''.000000+00:00'') = Some ?k"
    using iso_date_time_parses(1) [OF assms(1), of "''.000000''"] by simp
  have p2: "fromisoformat (?iso @ ''+00:00'') = Some ?k"
    using iso_date_time_parses(1) [OF assms(1), of "[]"] by simp
  have s1: "replace_Z (?iso @ ''.000000+00:00'') = ?iso @ ''.000000+00:00''"
    by (simp add: replace_Z_append noZ) (simp add: replace_Z_def)
  have s2: "replace_Z (?iso @ ''+00:00'') = ?iso @ ''+00:00''"
    by (simp add: replace_Z_append noZ) (simp add: replace_Z_def)
  have s3: "replace_Z (?iso @ ''Z'') = ?iso @ ''+00:00''"
    by (simp add: replace_Z_append noZ) (simp add: replace_Z_def)
  have r1: "parse_timestamp fromisoformat r1 = Inr ?k"
    using parse_timestamp_str [OF assms(2), of fromisoformat] by (simp add: s1 p1)
  have r2: "parse_timestamp fromisoformat r2 = Inr ?k"
    using parse_timestamp_str [OF assms(3), of fromisoformat] by (simp add: s2 p2)
  have r3: "parse_timestamp fromisoformat r3 = Inr ?k"
    using parse_timestamp_str [OF assms(4), of fromisoformat] by (simp add: s3 p2)
  have z: "parse_timestamp fromiso r = parse_timestamp fromiso r'"
    if "field r ''uploaded_at'' = Some (JStr (s @ ''Z''))"
      and "field r' ''uploaded_at'' = Some (JStr (s @ ''+00:00''))"
    for fromiso s r r'
    using parse_timestamp_str [OF that(1), of fromiso] parse_timestamp_str [OF that(2), of fromiso]
    by (simp add: replace_Z_suffix)
  have sc: "extract_attachments (JArr [msg1, msg2]) = Inr [record_of msg1 a1, record_of msg2 a2]
      \<and> sort_attachments fromisoformat [record_of msg1 a1, record_of msg2 a2]
           = Inr [record_of msg2 a2, record_of msg1 a1]"
    if "message_ok msg1" "message_ok msg2"
      and "field msg1 ''timestamp'' = Some (JStr ''2024-01-01T00:00:00.000000+00:00'')"
      and "attachments_of msg1 = [a1]"
      and "field msg2 ''timestamp'' = Some (JStr ''2024-06-01T12:00:00Z'')"
      and "attachments_of msg2 = [a2]"
    for msg1 msg2 a1 a2
  proof
    have "list_all message_ok [msg1, msg2]"
      using that by simp
    then have "extract_attachments (JArr [msg1, msg2]) = Inr (concat (map records_of [msg1, msg2]))"
      by (rule extract_attachments_ok)
    then show "extract_attachments (JArr [msg1, msg2]) = Inr [record_of msg1 a1, record_of msg2 a2]"
      using that(4,6) by (simp add: records_of_def)
    show "sort_attachments fromisoformat [record_of msg1 a1, record_of msg2 a2]
           = Inr [record_of msg2 a2, record_of msg1 a1]"
      using that(3,5) by (intro june_first) (simp_all add: field_record_of field_or_def)
  qed
  show ?thesis
    using r1 r2 r3 z sc by (simp only:) blast
qed

theorem timestamp_notations_equivalent_witness:
  "valid_date_time 2024 6 1 12 0 0
   \<and> field rec_june ''uploaded_at'' = Some (JStr (iso_date_time 2024 6 1 12 0 0 @ ''Z''))
   \<and> parse_timestamp fromisoformat rec_june =
       Inr \<lparr>year = 2024, month = 6, day = 1, hour = 12, minute = 0, second = 0,
            microsecond = 0, tzinfo = Some 0\<rparr>
   \<and> parse_timestamp fromisoformat (JObj [(''uploaded_at'', JStr ''2024-06-01T12:00:00+00:00'')])
       = parse_timestamp fromisoformat
           (JObj [(''uploaded_at'', JStr ''2024-06-01T12:00:00.000000+00:00'')])
   \<and> sort_attachments fromisoformat [rec_january, rec_june] = Inr [rec_june, rec_january]"
proof -
  define r1 where "r1 = JObj [(''uploaded_at'', JStr ''2024-06-01T12:00:00.000000+00:00'')]"
  define r2 where "r2 = JObj [(''uploaded_at'', JStr ''2024-06-01T12:00:00+00:00'')]"
  define a1 where "a1 = JObj [(''filename'', JStr ''a.png''), (''url'', JStr ''https://cdn/a.png''),
                        (''size'', JInt 10), (''content_type'', JStr ''image/png'')]"
  define a2 where "a2 = JObj [(''filename'', JStr ''b.txt''), (''url'', JStr ''https://cdn/b.txt''),
                        (''size'', JInt 20)]"
  have v: "valid_date_time 2024 6 1 12 0 0"
    by (simp add: valid_date_time_def days_in_month_def)
  have iso: "iso_date_time 2024 6 1 12 0 0 = ''2024-06-01T12:00:00''"
    by code_simp
  have f1: "field r1 ''uploaded_at'' = Some (JStr (iso_date_time 2024 6 1 12 0 0 @ ''.000000+00:00''))"
    by (simp add: iso r1_def)
  have f2: "field r2 ''uploaded_at'' = Some (JStr (iso_date_time 2024 6 1 12 0 0 @ ''+00:00''))"
    by (simp add: iso r2_def)
  have f3: "field rec_june ''uploaded_at'' = Some (JStr (iso_date_time 2024 6 1 12 0 0 @ ''Z''))"
    by (simp add: iso rec_june_def)
  note th = timestamp_notations_equivalent [OF v f1 f2 f3]
  have k: "parse_timestamp fromisoformat r1 =
       Inr \<lparr>year = 2024, month = 6, day = 1, hour = 12, minute = 0, second = 0,
            microsecond = 0, tzinfo = Some 0\<rparr>"
    and k2: "parse_timestamp fromisoformat r2 = parse_timestamp fromisoformat r1"
    and k3: "parse_timestamp fromisoformat rec_june = parse_timestamp fromisoformat r1"
    using th by blast+
  have m: "message_ok msg_january \<and> message_ok msg_june
      \<and> field msg_january ''timestamp'' = Some (JStr ''2024-01-01T00:00:00.000000+00:00'')
      \<and> attachments_of msg_january = [a1]
      \<and> field msg_june ''timestamp'' = Some (JStr ''2024-06-01T12:00:00Z'')
      \<and> attachments_of msg_june = [a2]"
    by (simp add: message_ok_examples) (simp add: msg_january_def msg_june_def a1_def a2_def)
  have "sort_attachments fromisoformat [record_of msg_january a1, record_of msg_june a2]
      = Inr [record_of msg_june a2, record_of msg_january a1]"
    using th [THEN conjunct2, THEN conjunct2, THEN conjunct2, THEN conjunct2, rule_format, OF m]
    by blast
  moreover have "record_of msg_january a1 = rec_january" "record_of msg_june a2 = rec_june"
    using records_of_examples(1,2) m by (simp_all add: records_of_def)
  ultimately have s: "sort_attachments fromisoformat [rec_january, rec_june] = Inr [rec_june, rec_january]"
    by simp
  show ?thesis
    using v f3 k k2 k3 s by (simp add: r1_def r2_def)
qed

section \<open>The credential loader and the fetcher: proofs\<close>

lemma main_missing_credentials:
  assumes "unset (environ w ''DISCORD_BOT_TOKEN'') \<or> unset (environ w ''DISCORD_CHANNEL_ID'')"
  shows "main fromiso srv script_dir w =
     (Inl (SystemExit 1),
      w\<lparr>stdout := stdout w @
           [replicate 50 CHR ''='', ''Discord File Sync Script'', replicate 50 CHR ''='',
            if unset (environ w ''DISCORD_BOT_TOKEN'')
            then ''ERROR: DISCORD_BOT_TOKEN environment variable not set''
            else ''ERROR: DISCORD_CHANNEL_ID environment variable not set'']\<rparr>)"
  using assms by (auto simp: main_def get_env_vars_def banner_def print_def Let_def)

text \<open>
  C5. When the bot token or the channel identifier is missing or empty, the process
  prints the error naming the first missing variable and exits with status 1; no request
  has been sent, and no file or directory has been written or changed.
\<close>

theorem missing_credentials_exit:
  assumes "unset (environ w ''DISCORD_BOT_TOKEN'') \<or> unset (environ w ''DISCORD_CHANNEL_ID'')"
  shows "fst (main fromiso srv script_dir w) = Inl (SystemExit 1)
       \<and> exit_status (fst (main fromiso srv script_dir w)) = 1
       \<and> sent (snd (main fromiso srv script_dir w)) = sent w
       \<and> files (snd (main fromiso srv script_dir w)) = files w
       \<and> dirs (snd (main fromiso srv script_dir w)) = dirs w
       \<and> stdout (snd (main fromiso srv script_dir w)) =
           stdout w @
           [replicate 50 CHR ''='', ''Discord File Sync Script'', replicate 50 CHR ''='',
            if unset (environ w ''DISCORD_BOT_TOKEN'')
            then ''ERROR: DISCORD_BOT_TOKEN environment variable not set''
            else ''ERROR: DISCORD_CHANNEL_ID environment variable not set'']
       \<and> fst (get_env_vars w) = Inl (SystemExit 1)"
  using assms
  by (simp add: main_missing_credentials [OF assms] exit_status_def)
     (auto simp: get_env_vars_def Let_def)

theorem missing_credentials_exit_witness:
  "unset (environ (world0\<lparr>environ := [''DISCORD_BOT_TOKEN'' \<mapsto> ''secret'']\<rparr>) ''DISCORD_CHANNEL_ID'')
   \<and> exit_status (fst (main fromisoformat (server_ok [msg_january]) [''repo'']
         (world0\<lparr>environ := [''DISCORD_BOT_TOKEN'' \<mapsto> ''secret'']\<rparr>))) = 1
   \<and> sent (snd (main fromisoformat (server_ok [msg_january]) [''repo'']
         (world0\<lparr>environ := [''DISCORD_BOT_TOKEN'' \<mapsto> ''secret'']\<rparr>))) = []
   \<and> stdout (snd (main fromisoformat (server_ok [msg_january]) [''repo'']
         (world0\<lparr>environ := [''DISCORD_BOT_TOKEN'' \<mapsto> ''secret'']\<rparr>))) =
       [replicate 50 CHR ''='', ''Discord File Sync Script'', replicate 50 CHR ''='',
        ''ERROR: DISCORD_CHANNEL_ID environment variable not set'']"
proof -
  let ?w = "world0\<lparr>environ := [''DISCORD_BOT_TOKEN'' \<mapsto> ''secret'']\<rparr>"
  have c: "unset (environ ?w ''DISCORD_CHANNEL_ID'')"
    by (simp add: unset_def)
  have t: "\<not> unset (environ ?w ''DISCORD_BOT_TOKEN'')"
    by (simp add: unset_def)
  have h: "unset (environ ?w ''DISCORD_BOT_TOKEN'') \<or> unset (environ ?w ''DISCORD_CHANNEL_ID'')"
    using c by simp
  show ?thesis
    using c t missing_credentials_exit [OF h, of fromisoformat "server_ok [msg_january]" "[''repo'']"]
    by (simp add: world0_def exit_status_def)
qed

lemma fetch_messages_sent:
  "sent (snd (fetch_messages srv token channel_id limit w))
     = sent w @ [fetch_request token channel_id limit]"
  by (auto simp: fetch_messages_def Let_def print_def split: sum.splits)

text \<open>
  C7. The fetcher sends one request, whose \<^verbatim>\<open>limit\<close> parameter is the limit of the caller,
  or 100 when that is larger; the default limit is 100.
\<close>

theorem limit_clamped:
  "sent (snd (fetch_messages srv token channel_id limit w))
     = sent w @ [fetch_request token channel_id limit]
   \<and> req_params (fetch_request token channel_id limit)
       = [(''limit'', if 100 < limit then 100 else limit)]
   \<and> fetch_messages_default srv token channel_id w = fetch_messages srv token channel_id 100 w"
  by (simp add: fetch_messages_sent fetch_request_def fetch_messages_default_def min_def)

lemma fetch_messages_files:
  "files (snd (fetch_messages srv token channel_id limit w)) = files w
   \<and> dirs (snd (fetch_messages srv token channel_id limit w)) = dirs w
   \<and> environ (snd (fetch_messages srv token channel_id limit w)) = environ w"
  by (auto simp: fetch_messages_def Let_def print_def split: sum.splits)

lemma fetch_messages_status:
  assumes "srv (fetch_request token channel_id limit) = Inr response"
  shows "fetch_messages srv token channel_id limit w =
     (let w2 = w\<lparr>stdout := stdout w @ [''Fetching up to '' @ str_int limit
                    @ '' messages from channel '' @ channel_id @ ''...''],
                  sent := sent w @ [fetch_request token channel_id limit]\<rparr>
      in if status_code response = 200 then
           (case body_json response of
              Inl e \<Rightarrow> (Inl e, w2)
            | Inr messages \<Rightarrow>
               (case py_len messages of
                  Inl e \<Rightarrow> (Inl e, w2)
                | Inr n \<Rightarrow> (Inr messages,
                    w2\<lparr>stdout := stdout w2 @ [''Successfully fetched '' @ str_int n @ '' messages'']\<rparr>)))
         else (Inl (SystemExit 1),
           w2\<lparr>stdout := stdout w2 @
             (if status_code response = 401 then [''ERROR: Invalid bot token (401 Unauthorized)'']
              else if status_code response = 403 then
                [''ERROR: Bot lacks permission to read this channel (403 Forbidden)'']
              else if status_code response = 404 then [''ERROR: Channel not found (404 Not Found)'']
              else [''ERROR: Discord API returned status '' @ str_int (status_code response),
                    ''Response: '' @ body_text response])\<rparr>))"
  using assms by (auto simp: fetch_messages_def Let_def print_def split: sum.splits)

lemma get_env_vars_set:
  assumes "environ w ''DISCORD_BOT_TOKEN'' = Some token" "token \<noteq> []"
    and "environ w ''DISCORD_CHANNEL_ID'' = Some channel_id" "channel_id \<noteq> []"
  shows "get_env_vars (banner (print line (banner w)))
           = (Inr (token, channel_id), banner (print line (banner w)))"
  using assms by (simp add: get_env_vars_def unset_def banner_def print_def Let_def)

lemma main_fetch_fails:
  assumes "environ w ''DISCORD_BOT_TOKEN'' = Some token" "token \<noteq> []"
    and "environ w ''DISCORD_CHANNEL_ID'' = Some channel_id" "channel_id \<noteq> []"
    and "fetch_messages srv token channel_id 100
           (banner (print ''Discord File Sync Script'' (banner w))) = (Inl e, w2)"
  shows "main fromiso srv script_dir w = (Inl e, w2)"
  by (simp add: main_def Let_def get_env_vars_set [OF assms(1-4)] assms(5))

lemma main_fatal_status:
  assumes "environ w ''DISCORD_BOT_TOKEN'' = Some token" "token \<noteq> []"
    and "environ w ''DISCORD_CHANNEL_ID'' = Some channel_id" "channel_id \<noteq> []"
    and "srv (fetch_request token channel_id 100) = Inr response"
    and "status_code response \<noteq> 200"
  shows "main fromiso srv script_dir w =
     (Inl (SystemExit 1),
      w\<lparr>stdout := stdout w @
           [replicate 50 CHR ''='', ''Discord File Sync Script'', replicate 50 CHR ''='',
            ''Fetching up to 100 messages from channel '' @ channel_id @ ''...''] @
           (if status_code response = 401 then [''ERROR: Invalid bot token (401 Unauthorized)'']
            else if status_code response = 403 then
              [''ERROR: Bot lacks permission to read this channel (403 Forbidden)'']
            else if status_code response = 404 then [''ERROR: Channel not found (404 Not Found)'']
            else [''ERROR: Discord API returned status '' @ str_int (status_code response),
                  ''Response: '' @ body_text response]),
         sent := sent w @ [fetch_request token channel_id 100]\<rparr>)"
proof -
  have s: "str_int 100 = ''100''"
    by code_simp
  show ?thesis
    using assms(6)
    by (intro main_fetch_fails [OF assms(1-4)])
       (simp add: fetch_messages_status [of srv token channel_id 100 response, OF assms(5)]
          Let_def banner_def print_def s)
qed

text \<open>
  C6. Status 200 makes the fetcher return the parsed list of messages. Any other status
  makes the process print its report and exit with status 1, with nothing printed or
  sent after it and no file or directory written: the report names the invalid token
  for 401, the missing permission for 403, the missing channel for 404, and gives the
  numeric status and the raw body for every other status.
\<close>

theorem fetch_status_outcomes:
  assumes "environ w ''DISCORD_BOT_TOKEN'' = Some token" "token \<noteq> []"
    and "environ w ''DISCORD_CHANNEL_ID'' = Some channel_id" "channel_id \<noteq> []"
    and "srv (fetch_request token channel_id 100) = Inr response"
  shows "(status_code response = 200 \<and> body_json response = Inr (JArr msgs) \<longrightarrow>
           fst (fetch_messages srv token channel_id 100 w) = Inr (JArr msgs))
       \<and> (status_code response \<noteq> 200 \<longrightarrow>
           fst (main fromiso srv script_dir w) = Inl (SystemExit 1)
           \<and> exit_status (fst (main fromiso srv script_dir w)) = 1
           \<and> files (snd (main fromiso srv script_dir w)) = files w
           \<and> dirs (snd (main fromiso srv script_dir w)) = dirs w
           \<and> sent (snd (main fromiso srv script_dir w)) = sent w @ [fetch_request token channel_id 100]
           \<and> stdout (snd (main fromiso srv script_dir w)) =
               stdout w @
               [replicate 50 CHR ''='', ''Discord File Sync Script'', replicate 50 CHR ''='',
                ''Fetching up to 100 messages from channel '' @ channel_id @ ''...''] @
               (if status_code response = 401 then
                  [''ERROR: Invalid bot token (401 Unauthorized)'']
                else if status_code response = 403 then
                  [''ERROR: Bot lacks permission to read this channel (403 Forbidden)'']
                else if status_code response = 404 then
                  [''ERROR: Channel not found (404 Not Found)'']
                else [''ERROR: Discord API returned status '' @ str_int (status_code response),
                      ''Response: '' @ body_text response]))"
proof -
  have ok: "fst (fetch_messages srv token channel_id 100 w) = Inr (JArr msgs)"
    if "status_code response = 200" "body_json response = Inr (JArr msgs)"
    using that
    by (simp add: fetch_messages_status [of srv token channel_id 100 response, OF assms(5)] Let_def)
  have fatal: "main fromiso srv script_dir w =
     (Inl (SystemExit 1),
      w\<lparr>stdout := stdout w @
           [replicate 50 CHR ''='', ''Discord File Sync Script'', replicate 50 CHR ''='',
            ''Fetching up to 100 messages from channel '' @ channel_id @ ''...''] @
           (if status_code response = 401 then [''ERROR: Invalid bot token (401 Unauthorized)'']
            else if status_code response = 403 then
              [''ERROR: Bot lacks permission to read this channel (403 Forbidden)'']
            else if status_code response = 404 then [''ERROR: Channel not found (404 Not Found)'']
            else [''ERROR: Discord API returned status '' @ str_int (status_code response),
                  ''Response: '' @ body_text response]),
         sent := sent w @ [fetch_request token channel_id 100]\<rparr>)"
    if "status_code response \<noteq> 200"
    using assms that by (rule main_fatal_status)
  show ?thesis
    using ok by (auto simp: fatal exit_status_def)
qed

theorem fetch_status_outcomes_witness:
  "environ world0 ''DISCORD_BOT_TOKEN'' = Some ''secret''
   \<and> environ world0 ''DISCORD_CHANNEL_ID'' = Some ''42''
   \<and> server_status 403 ''{}'' (fetch_request ''secret'' ''42'' 100)
       = Inr \<lparr>status_code = 403, body_text = ''{}'', body_json = Inl ValueError\<rparr>
   \<and> exit_status (fst (main fromisoformat (server_status 403 ''{}'') [''repo''] world0)) = 1
   \<and> files (snd (main fromisoformat (server_status 403 ''{}'') [''repo''] world0)) = files world0
   \<and> stdout (snd (main fromisoformat (server_status 403 ''{}'') [''repo''] world0)) =
       [replicate 50 CHR ''='', ''Discord File Sync Script'', replicate 50 CHR ''='',
        ''Fetching up to 100 messages from channel 42...'',
        ''ERROR: Bot lacks permission to read this channel (403 Forbidden)'']"
proof -
  have t: "environ world0 ''DISCORD_BOT_TOKEN'' = Some ''secret''"
    and c: "environ world0 ''DISCORD_CHANNEL_ID'' = Some ''42''"
    and o: "stdout world0 = []"
    by (simp_all add: world0_def)
  have r: "server_status 403 ''{}'' (fetch_request ''secret'' ''42'' 100)
       = Inr \<lparr>status_code = 403, body_text = ''{}'', body_json = Inl ValueError\<rparr>"
    by (simp add: server_status_def)
  have n: "''secret'' \<noteq> []" "''42'' \<noteq> []"
    by simp_all
  show ?thesis
    using t c r
      fetch_status_outcomes [where w = world0 and srv = "server_status 403 ''{}''"
        and token = "''secret''" and channel_id = "''42''" and msgs = "[]"
        and fromiso = fromisoformat and script_dir = "[''repo'']", OF t n(1) c n(2) r]
    by (simp add: o exit_status_def)
qed

theorem limit_clamped_witness:
  "req_params (last (sent (snd (fetch_messages (server_ok []) ''secret'' ''42'' 250 world0))))
     = [(''limit'', 100)]
   \<and> req_params (last (sent (snd (fetch_messages (server_ok []) ''secret'' ''42'' 25 world0))))
     = [(''limit'', 25)]"
  using limit_clamped [of "server_ok []" "''secret''" "''42''" 250 world0]
    limit_clamped [of "server_ok []" "''secret''" "''42''" 25 world0]
  by simp

section \<open>The writer: proofs\<close>

lemma ancestors_snoc: "ancestors (q @ [c]) = ancestors q @ [q @ [c]]"
  by (simp add: ancestors_def)

lemma set_ancestors: "set (ancestors q) = (\<lambda>n. take n q) ` {..length q}"
proof -
  have "set [0..<Suc (length q)] = {..length q}"
    by auto
  then show ?thesis
    by (simp only: ancestors_def set_map)
qed

lemma below_a_file_iff: "below_a_file w p \<longleftrightarrow> (\<exists>n < length p. take n p \<in> dom (files w))"
  by (auto simp: below_a_file_def list_ex_iff)

lemma below_a_file_snoc:
  "below_a_file w (q @ [c]) \<longleftrightarrow> below_a_file w q \<or> q \<in> dom (files w)"
  by (auto simp: below_a_file_iff less_Suc_eq)

lemma is_dir_ancestors:
  assumes "fs_ok w"
  shows "is_dir w q \<Longrightarrow> p \<in> set (ancestors q) \<Longrightarrow> is_dir w p"
proof (induction q rule: rev_induct)
  case Nil
  then show ?case by (simp add: ancestors_def)
next
  case (snoc c q)
  from snoc.prems(1) have "q @ [c] \<in> dirs w"
    by (simp add: is_dir_def)
  then have "is_dir w q"
    using assms by (auto simp: fs_ok_def parent_def)
  then show ?case
    using snoc by (auto simp: ancestors_snoc)
qed

lemma ancestors_in_dirs:
  assumes "fs_ok w" "is_dir w q"
  shows "dirs w \<union> (set (ancestors q) - {[]}) = dirs w"
  using is_dir_ancestors [OF assms] by (auto simp: is_dir_def)

lemma self_ancestor: "q \<in> set (ancestors q)"
  by (auto simp: set_ancestors intro!: image_eqI [of _ _ "length q"])

lemma snoc_not_ancestor: "q @ [c] \<notin> set (ancestors q)"
proof
  assume "q @ [c] \<in> set (ancestors q)"
  then obtain n where "q @ [c] = take n q"
    by (auto simp: set_ancestors)
  then have "length (q @ [c]) = length (take n q)"
    by simp
  then show False
    by simp
qed

lemma mkdir_parents_ok:
  assumes "fs_ok w"
  shows "\<not> below_a_file w q \<Longrightarrow> q \<notin> dom (files w) \<Longrightarrow>
         mkdir_parents q w = Inr (w\<lparr>dirs := dirs w \<union> (set (ancestors q) - {[]})\<rparr>)"
proof (induction q rule: rev_induct)
  case Nil
  show ?case
    by (subst mkdir_parents.simps)
       (simp add: os_mkdir_def below_a_file_def is_dir_def ancestors_def)
next
  case (snoc c q)
  let ?p = "q @ [c]"
  from snoc.prems have nb: "\<not> below_a_file w q" and nf: "q \<notin> dom (files w)"
    and pf: "?p \<notin> dom (files w)" and nbp: "\<not> below_a_file w ?p"
    by (simp_all add: below_a_file_snoc)
  note IH = snoc.IH [OF nb nf]
  show ?case
  proof (cases "is_dir w ?p")
    case True
    then show ?thesis
      using nbp ancestors_in_dirs [OF assms True]
      by (subst mkdir_parents.simps) (simp add: os_mkdir_def)
  next
    case np: False
    show ?thesis
    proof (cases "is_dir w q")
      case True
      have "dirs w \<union> (set (ancestors ?p) - {[]}) = insert ?p (dirs w)"
        using ancestors_in_dirs [OF assms True] by (auto simp: ancestors_snoc)
      then show ?thesis
        using nbp np pf True
        by (subst mkdir_parents.simps) (simp add: os_mkdir_def parent_def)
    next
      case False
      let ?w1 = "w\<lparr>dirs := dirs w \<union> (set (ancestors q) - {[]})\<rparr>"
      have q: "q \<noteq> []"
        using False by (auto simp: is_dir_def)
      have b1: "\<not> below_a_file ?w1 ?p"
        using nbp by (simp add: below_a_file_def)
      have d1: "\<not> is_dir ?w1 ?p"
        using np snoc_not_ancestor [of q c] by (simp add: is_dir_def)
      have p1: "is_dir ?w1 q"
        using q self_ancestor [of q] by (simp add: is_dir_def)
      have m: "mkdir_exist_ok ?p ?w1 = Inr (?w1\<lparr>dirs := insert ?p (dirs ?w1)\<rparr>)"
        using b1 d1 p1 pf by (simp add: mkdir_exist_ok_def os_mkdir_def parent_def)
      have "dirs w \<union> (set (ancestors ?p) - {[]}) = insert ?p (dirs ?w1)"
        by (auto simp: ancestors_snoc)
      then show ?thesis
        using nbp np pf False IH m
        by (subst mkdir_parents.simps) (simp add: os_mkdir_def parent_def)
    qed
  qed
qed

subsection \<open>The text of the chunks\<close>

lemma encode_scalar [simp]:
  "encode level JNull = ''null''"
  "encode level (JBool b) = (if b then ''true'' else ''false'')"
  "encode level (JInt n) = str_int n"
  "encode level (JStr s) = encode_basestring s"
  by (simp_all add: encode_def)

lemma iterencode_list_Cons:
  "concat (iterencode_list level buf (x # xs)) =
     buf @ encode level x @ concat (iterencode_list level ('','' @ newline_indent level) xs)"
  by (simp add: encode_def)

lemma iterencode_list_text:
  "concat (iterencode_list level buf (x # xs)) =
     buf @ encode level x
     @ concat (map (\<lambda>y. '','' @ newline_indent level @ encode level y) xs)"
proof (induction xs arbitrary: buf x)
  case Nil
  show ?case
    unfolding iterencode_list_Cons by simp
next
  case (Cons y ys)
  show ?case
    unfolding iterencode_list_Cons [of level buf x] Cons.IH
    by simp
qed

lemma iterencode_dict_Cons:
  "concat (iterencode_dict level sep (kv # kvs)) =
     concat sep @ encode_basestring (fst kv) @ '': '' @ encode level (snd kv)
     @ concat (iterencode_dict level ['','' @ newline_indent level] kvs)"
  by (simp add: encode_def)

lemma iterencode_dict_text:
  "concat (iterencode_dict level sep (kv # kvs)) =
     concat sep @ encode_basestring (fst kv) @ '': '' @ encode level (snd kv)
     @ concat (map (\<lambda>kv. '','' @ newline_indent level @ encode_basestring (fst kv) @ '': ''
                          @ encode level (snd kv)) kvs)"
proof (induction kvs arbitrary: sep kv)
  case Nil
  show ?case
    unfolding iterencode_dict_Cons by simp
next
  case (Cons y ys)
  show ?case
    unfolding iterencode_dict_Cons [of level sep kv] Cons.IH
    by simp
qed

lemma encode_list:
  "encode level (JArr []) = ''[]''"
  "encode level (JArr (x # xs)) =
     ''['' @ newline_indent (Suc level) @ encode (Suc level) x
     @ concat (map (\<lambda>y. '','' @ newline_indent (Suc level) @ encode (Suc level) y) xs)
     @ newline_indent level @ '']''"
proof -
  show "encode level (JArr []) = ''[]''"
    by (simp add: encode_def)
  have "encode level (JArr (x # xs)) =
      concat (iterencode_list (Suc level) (''['' @ newline_indent (Suc level)) (x # xs))
      @ newline_indent level @ '']''"
    by (simp add: encode_def)
  then show "encode level (JArr (x # xs)) =
     ''['' @ newline_indent (Suc level) @ encode (Suc level) x
     @ concat (map (\<lambda>y. '','' @ newline_indent (Suc level) @ encode (Suc level) y) xs)
     @ newline_indent level @ '']''"
    unfolding iterencode_list_text by simp
qed

lemma encode_dict:
  "encode level (JObj []) = ''{}''"
  "encode level (JObj (kv # kvs)) =
     ''{'' @ newline_indent (Suc level)
     @ encode_basestring (fst kv) @ '': '' @ encode (Suc level) (snd kv)
     @ concat (map (\<lambda>kv. '','' @ newline_indent (Suc level) @ encode_basestring (fst kv) @ '': ''
                          @ encode (Suc level) (snd kv)) kvs)
     @ newline_indent level @ ''}''"
proof -
  show "encode level (JObj []) = ''{}''"
    by (simp add: encode_def)
  have "encode level (JObj (kv # kvs)) =
      ''{'' @ newline_indent (Suc level) @ concat (iterencode_dict (Suc level) [] (kv # kvs))
      @ newline_indent level @ ''}''"
    by (simp add: encode_def)
  then show "encode level (JObj (kv # kvs)) =
     ''{'' @ newline_indent (Suc level)
     @ encode_basestring (fst kv) @ '': '' @ encode (Suc level) (snd kv)
     @ concat (map (\<lambda>kv. '','' @ newline_indent (Suc level) @ encode_basestring (fst kv) @ '': ''
                          @ encode (Suc level) (snd kv)) kvs)
     @ newline_indent level @ ''}''"
    unfolding iterencode_dict_text by simp
qed

subsection \<open>Reading back what the encoder writes\<close>

lemma hex_digits: "list_all (\<lambda>d. hex_val (hex_char d) = Some d) [0..<16]"
  by code_simp

lemma hex_val_hex_char: "d < 16 \<Longrightarrow> hex_val (hex_char d) = Some d"
  using hex_digits by (simp add: list_all_iff)

lemma hex_val_0: "hex_val CHR ''0'' = Some 0"
  by code_simp

lemma json_chars_control:
  assumes "(of_char c :: nat) < 32"
  shows "json_chars ([CHR 0x5C, CHR ''u'', CHR ''0'', CHR ''0'',
                      hex_char ((of_char c :: nat) div 16), hex_char ((of_char c :: nat) mod 16)] @ x)
         = map_option (\<lambda>(t, u). (c # t, u)) (json_chars x)"
proof -
  let ?n = "of_char c :: nat"
  have h: "json_hex4 [CHR ''0'', CHR ''0'', hex_char (?n div 16), hex_char (?n mod 16)] = Some ?n"
    using assms by (simp add: json_hex4_def hex_val_0 hex_val_hex_char)
  show ?thesis
    using assms by (simp add: h)
qed

lemma json_chars_escape_char:
  "json_chars (escape_char c @ x) = map_option (\<lambda>(t, u). (c # t, u)) (json_chars x)"
proof (cases "c = CHR 0x22 \<or> c = CHR 0x5C \<or> c = CHR 0x0A \<or> c = CHR 0x0D \<or> c = CHR 0x09
              \<or> c = CHR 0x08 \<or> c = CHR 0x0C")
  case True
  then show ?thesis
    by (auto simp: escape_char_def json_escape_def)
next
  case named: False
  show ?thesis
  proof (cases "(of_char c :: nat) < 32")
    case True
    have "escape_char c = [CHR 0x5C, CHR ''u'', CHR ''0'', CHR ''0'',
                      hex_char ((of_char c :: nat) div 16), hex_char ((of_char c :: nat) mod 16)]"
      using named True by (simp add: escape_char_def)
    then show ?thesis
      using json_chars_control [OF True] by simp
  next
    case False
    then have "escape_char c = [c]"
      using named by (simp add: escape_char_def)
    then show ?thesis
      using named False by simp
  qed
qed

lemma json_chars_escaped:
  "json_chars (concat (map escape_char s) @ CHR 0x22 # rest) = Some (s, rest)"
proof (induction s)
  case Nil
  show ?case
    by simp
next
  case (Cons c s)
  then show ?case
    by (simp add: json_chars_escape_char del: json_chars.simps(2))
qed

lemma json_chars_basestring:
  "json_chars (tl (encode_basestring s) @ rest) = Some (s, rest)"
  using json_chars_escaped [of s rest] by (simp add: encode_basestring_def)

lemma digit_char_is_digit: "0 \<le> d \<Longrightarrow> d \<le> 9 \<Longrightarrow> is_digit (digit_char d)"
  using digit_cases [of d] by (auto simp: digit_char_def is_digit_def)

lemma digit_char_zero: "0 < d \<Longrightarrow> d \<le> 9 \<Longrightarrow> digit_char d \<noteq> CHR ''0''"
  using digit_cases [of d] by (auto simp: digit_char_def)

lemma str_nonneg_0: "str_nonneg 0 = ''0''"
  by code_simp

lemma str_nonneg_digits: "0 \<le> n \<Longrightarrow> list_all is_digit (str_nonneg n)"
proof (induction n rule: str_nonneg.induct)
  case (1 n)
  show ?case
  proof (cases "n < 10")
    case True
    then show ?thesis
      using "1.prems" by (subst str_nonneg.simps) (simp add: digit_char_is_digit)
  next
    case False
    then have "list_all is_digit (str_nonneg (n div 10))"
      using 1 by simp
    moreover have "is_digit (digit_char (n mod 10))"
      by (simp add: digit_char_is_digit)
    ultimately show ?thesis
      using False by (subst str_nonneg.simps) simp
  qed
qed

lemma str_nonneg_nonempty: "str_nonneg n \<noteq> []"
  by (subst str_nonneg.simps) simp

lemma str_nonneg_leading: "0 < n \<Longrightarrow> take 1 (str_nonneg n) \<noteq> ''0''"
proof (induction n rule: str_nonneg.induct)
  case (1 n)
  show ?case
  proof (cases "n < 10")
    case True
    then show ?thesis
      using "1.prems" by (subst str_nonneg.simps) (simp add: digit_char_zero)
  next
    case False
    then have "take 1 (str_nonneg (n div 10)) \<noteq> ''0''"
      using 1 by simp
    then show ?thesis
      using False str_nonneg_nonempty [of "n div 10"]
      by (subst str_nonneg.simps) (simp add: take_Suc_conv_app_nth)
  qed
qed

lemma digits_value_append:
  "digits_value (xs @ ys) acc =
     (case digits_value xs acc of None \<Rightarrow> None | Some a \<Rightarrow> digits_value ys a)"
  by (induction xs arbitrary: acc) (simp_all split: option.splits)

lemma digits_value_str_nonneg: "0 \<le> n \<Longrightarrow> digits_value (str_nonneg n) 0 = Some n"
proof (induction n rule: str_nonneg.induct)
  case (1 n)
  show ?case
  proof (cases "n < 10")
    case True
    then show ?thesis
      using "1.prems" by (subst str_nonneg.simps) (simp add: digit_val_digit_char)
  next
    case False
    then have "digits_value (str_nonneg (n div 10)) 0 = Some (n div 10)"
      using 1 by simp
    then show ?thesis
      using False
      by (subst str_nonneg.simps) (simp add: digits_value_append digit_val_digit_char)
  qed
qed

lemma span_digits:
  assumes "list_all is_digit ds" "rest = [] \<or> \<not> is_digit (hd rest)"
  shows "takeWhile is_digit (ds @ rest) = ds" "dropWhile is_digit (ds @ rest) = rest"
proof -
  have r: "takeWhile is_digit rest = []" "dropWhile is_digit rest = rest"
    using assms(2) by (cases rest; auto)+
  show "takeWhile is_digit (ds @ rest) = ds"
    using assms(1) r by (simp add: list_all_iff takeWhile_append2)
  show "dropWhile is_digit (ds @ rest) = rest"
    using assms(1) r by (simp add: list_all_iff dropWhile_append2)
qed

lemma json_number_nonneg:
  assumes "0 \<le> m" "rest = [] \<or> hd rest = CHR '','' \<or> hd rest = CHR 0x0A"
  shows "takeWhile is_digit (str_nonneg m @ rest) = str_nonneg m"
    and "dropWhile is_digit (str_nonneg m @ rest) = rest"
    and "\<not> (take 1 (str_nonneg m) = ''0'' \<and> length (str_nonneg m) \<noteq> 1)"
    and "take 1 rest \<noteq> ''.''" "take 1 rest \<noteq> ''e''" "take 1 rest \<noteq> ''E''"
    and "take 1 (str_nonneg m @ rest) \<noteq> ''-''"
proof -
  have nd: "rest = [] \<or> \<not> is_digit (hd rest)"
    using assms(2) by (auto simp: is_digit_def)
  show "takeWhile is_digit (str_nonneg m @ rest) = str_nonneg m"
    and "dropWhile is_digit (str_nonneg m @ rest) = rest"
    using span_digits [OF str_nonneg_digits [OF assms(1)] nd] by simp_all
  show "\<not> (take 1 (str_nonneg m) = ''0'' \<and> length (str_nonneg m) \<noteq> 1)"
    using str_nonneg_leading [of m] assms(1) by (cases "m = 0") (auto simp: str_nonneg_0)
  show "take 1 rest \<noteq> ''.''" "take 1 rest \<noteq> ''e''" "take 1 rest \<noteq> ''E''"
    using assms(2) by (cases rest; auto)+
  obtain c cs where s: "str_nonneg m = c # cs"
    using str_nonneg_nonempty [of m] by (cases "str_nonneg m") auto
  then have "is_digit c"
    using str_nonneg_digits [OF assms(1)] by simp
  then have "c \<noteq> CHR ''-''"
    by (auto simp: is_digit_def)
  then show "take 1 (str_nonneg m @ rest) \<noteq> ''-''"
    by (simp add: s)
qed

lemma json_number_str_int:
  assumes "rest = [] \<or> hd rest = CHR '','' \<or> hd rest = CHR 0x0A"
  shows "json_number (str_int n @ rest) = Some (JInt n, rest)"
proof (cases "n < 0")
  case True
  then have m: "0 \<le> - n"
    by simp
  note f = json_number_nonneg [OF m assms]
  show ?thesis
    using True f(3-6) str_nonneg_nonempty [of "- n"]
    by (simp add: json_number_def Let_def str_int_def f(1,2) digits_value_str_nonneg [OF m])
next
  case False
  then have m: "0 \<le> n"
    by simp
  note f = json_number_nonneg [OF m assms]
  show ?thesis
    using False f(3-7) str_nonneg_nonempty [of n]
    by (simp add: json_number_def Let_def str_int_def f(1,2) digits_value_str_nonneg [OF m])
qed

lemma skip_ws_ws: "list_all is_ws w \<Longrightarrow> skip_ws (w @ s) = skip_ws s"
  by (simp add: skip_ws_def list_all_iff dropWhile_append2)

lemma skip_ws_start: "\<not> is_ws c \<Longrightarrow> skip_ws (c # cs) = c # cs"
  by (simp add: skip_ws_def)

lemma ws_newline_indent: "list_all is_ws (newline_indent level)"
  by (simp add: newline_indent_def is_ws_def list_all_iff)

lemma parse_Value:
  "json_parse Value s =
     (case skip_ws s of
        [] \<Rightarrow> None
      | c # cs \<Rightarrow>
         if c = CHR ''['' then
           (if take 1 (skip_ws cs) = '']'' then Some (JArr [], drop 1 (skip_ws cs))
            else json_parse Elements cs)
         else if c = CHR ''{'' then
           (if take 1 (skip_ws cs) = ''}'' then Some (JObj [], drop 1 (skip_ws cs))
            else json_parse Members cs)
         else if c = CHR 0x22 then map_option (\<lambda>(t, r). (JStr t, r)) (json_chars cs)
         else if c = CHR ''-'' \<or> is_digit c then json_number (c # cs)
         else json_literal (c # cs))"
  by (subst json_parse.simps) simp

lemma parse_Elements:
  "json_parse Elements s =
     Option.bind (json_parse Value s) (\<lambda>(v, r).
       if take 1 (skip_ws r) = '','' then
         Option.bind (json_parse Elements (drop 1 (skip_ws r))) (\<lambda>(vs, r').
           case vs of JArr xs \<Rightarrow> Some (JArr (v # xs), r') | _ \<Rightarrow> None)
       else if take 1 (skip_ws r) = '']'' then Some (JArr [v], drop 1 (skip_ws r))
       else None)"
  by (subst json_parse.simps) simp

lemma parse_Members:
  "json_parse Members s =
     (if take 1 (skip_ws s) \<noteq> [CHR 0x22] then None
      else
       (case json_chars (drop 1 (skip_ws s)) of
          None \<Rightarrow> None
        | Some (k, r) \<Rightarrow>
           if take 1 (skip_ws r) \<noteq> '':'' then None
           else
             Option.bind (json_parse Value (drop 1 (skip_ws r))) (\<lambda>(v, r1).
               if take 1 (skip_ws r1) = '','' then
                 Option.bind (json_parse Members (drop 1 (skip_ws r1))) (\<lambda>(m, r2).
                   case m of JObj kvs \<Rightarrow> Some (JObj ((k, v) # kvs), r2) | _ \<Rightarrow> None)
               else if take 1 (skip_ws r1) = ''}''
               then Some (JObj [(k, v)], drop 1 (skip_ws r1))
               else None)))"
  by (subst json_parse.simps) simp

lemma parse_Value_ws: "list_all is_ws w \<Longrightarrow> json_parse Value (w @ s) = json_parse Value s"
  by (simp add: parse_Value [of "w @ s"] parse_Value [of s] skip_ws_ws)

lemma parse_null: "json_parse Value (''null'' @ rest) = Some (JNull, rest)"
  by (simp add: parse_Value skip_ws_def is_ws_def is_digit_def json_literal_def)

lemma parse_bool:
  "json_parse Value ((if b then ''true'' else ''false'') @ rest) = Some (JBool b, rest)"
  by (simp add: parse_Value skip_ws_def is_ws_def is_digit_def json_literal_def)

lemma str_int_head: "\<exists>c cs. str_int n = c # cs \<and> (c = CHR ''-'' \<or> is_digit c)"
proof (cases "n < 0")
  case True
  then show ?thesis
    by (simp add: str_int_def)
next
  case False
  then have "list_all is_digit (str_nonneg n)"
    by (simp add: str_nonneg_digits)
  then show ?thesis
    using False str_nonneg_nonempty [of n] by (cases "str_nonneg n") (auto simp: str_int_def)
qed

lemma parse_int:
  assumes "rest = [] \<or> hd rest = CHR '','' \<or> hd rest = CHR 0x0A"
  shows "json_parse Value (str_int n @ rest) = Some (JInt n, rest)"
proof -
  obtain c cs where s: "str_int n = c # cs" and c: "c = CHR ''-'' \<or> is_digit c"
    using str_int_head [of n] by auto
  have "\<not> is_ws c" "c \<noteq> CHR ''[''" "c \<noteq> CHR ''{''" "c \<noteq> CHR 0x22"
    using c by (auto simp: is_ws_def is_digit_def)
  then have "json_parse Value (c # cs @ rest) = json_number (c # cs @ rest)"
    using c by (simp add: parse_Value skip_ws_start)
  then show ?thesis
    using json_number_str_int [OF assms, of n] by (simp add: s)
qed

lemma parse_str: "json_parse Value (encode_basestring s @ rest) = Some (JStr s, rest)"
proof -
  have "json_parse Value (CHR 0x22 # tl (encode_basestring s) @ rest) = Some (JStr s, rest)"
    by (simp add: parse_Value skip_ws_def is_ws_def json_chars_basestring)
  then show ?thesis
    by (simp add: encode_basestring_def)
qed

lemma encode_head:
  "\<exists>c cs. encode level v = c # cs \<and> \<not> is_ws c \<and> c \<noteq> CHR '']'' \<and> c \<noteq> CHR ''}''"
proof (cases v)
  case (JInt n)
  obtain c cs where "str_int n = c # cs" "c = CHR ''-'' \<or> is_digit c"
    using str_int_head [of n] by auto
  then show ?thesis
    by (auto simp: JInt is_ws_def is_digit_def)
next
  case (JArr xs)
  then show ?thesis
    by (cases xs) (simp_all add: encode_list is_ws_def)
next
  case (JObj kvs)
  then show ?thesis
    by (cases kvs) (simp_all add: encode_dict is_ws_def)
qed (simp_all add: is_ws_def encode_basestring_def)

lemma skip_ws_encode:
  "list_all is_ws w \<Longrightarrow> take 1 (skip_ws (w @ encode level v @ s)) \<noteq> '']''"
  "list_all is_ws w \<Longrightarrow> take 1 (skip_ws (w @ encode level v @ s)) \<noteq> ''}''"
proof -
  obtain c cs where "encode level v = c # cs" "\<not> is_ws c" "c \<noteq> CHR '']''" "c \<noteq> CHR ''}''"
    using encode_head [of level v] by auto
  then show "list_all is_ws w \<Longrightarrow> take 1 (skip_ws (w @ encode level v @ s)) \<noteq> '']''"
    "list_all is_ws w \<Longrightarrow> take 1 (skip_ws (w @ encode level v @ s)) \<noteq> ''}''"
    by (simp_all add: skip_ws_ws skip_ws_start)
qed

lemma parse_elements:
  assumes IH: "\<And>x level rest. x \<in> set xs' \<Longrightarrow>
                 rest = [] \<or> hd rest = CHR '','' \<or> hd rest = CHR 0x0A \<Longrightarrow>
                 json_parse Value (encode level x @ rest) = Some (x, rest)"
  shows "set (x # xs) \<subseteq> set xs' \<Longrightarrow> list_all is_ws w \<Longrightarrow>
         json_parse Elements
           (w @ encode level x
            @ concat (map (\<lambda>y. '','' @ newline_indent level @ encode level y) xs)
            @ newline_indent l @ '']'' @ rest) = Some (JArr (x # xs), rest)"
proof (induction xs arbitrary: x w)
  case Nil
  let ?r = "newline_indent l @ '']'' @ rest"
  have "json_parse Value (w @ encode level x @ ?r) = Some (x, ?r)"
    using Nil IH [of x ?r level] by (simp add: parse_Value_ws newline_indent_def)
  moreover have "skip_ws ?r = '']'' @ rest"
    using skip_ws_ws [OF ws_newline_indent, of l "'']'' @ rest"]
    by (simp add: skip_ws_def is_ws_def)
  ultimately show ?case
    by (subst parse_Elements) simp
next
  case (Cons y ys)
  let ?t = "newline_indent level @ encode level y
            @ concat (map (\<lambda>y. '','' @ newline_indent level @ encode level y) ys)
            @ newline_indent l @ '']'' @ rest"
  let ?r = "'','' @ ?t"
  have "json_parse Value (w @ encode level x @ ?r) = Some (x, ?r)"
    using Cons.prems IH [of x ?r level] by (simp add: parse_Value_ws)
  moreover have "skip_ws ?r = ?r"
    by (simp add: skip_ws_def is_ws_def)
  moreover have "json_parse Elements ?t = Some (JArr (y # ys), rest)"
    using Cons.IH [of y "newline_indent level"] Cons.prems by (simp add: ws_newline_indent)
  ultimately show ?case
    by (subst parse_Elements) simp
qed

lemma parse_Value_space: "json_parse Value (CHR '' '' # s) = json_parse Value s"
  using parse_Value_ws [of "'' ''" s] by (simp add: is_ws_def)

lemma skip_ws_basestring:
  "list_all is_ws w \<Longrightarrow>
   skip_ws (w @ encode_basestring k @ m) = CHR 0x22 # tl (encode_basestring k) @ m"
proof -
  have "skip_ws (encode_basestring k @ m) = CHR 0x22 # tl (encode_basestring k) @ m"
    by (simp add: encode_basestring_def skip_ws_start is_ws_def)
  then show "list_all is_ws w \<Longrightarrow>
   skip_ws (w @ encode_basestring k @ m) = CHR 0x22 # tl (encode_basestring k) @ m"
    by (simp only: skip_ws_ws)
qed

lemma parse_members:
  assumes IH: "\<And>v level rest. v \<in> snd ` set kvs' \<Longrightarrow>
                 rest = [] \<or> hd rest = CHR '','' \<or> hd rest = CHR 0x0A \<Longrightarrow>
                 json_parse Value (encode level v @ rest) = Some (v, rest)"
  shows "set (kv # kvs) \<subseteq> set kvs' \<Longrightarrow> list_all is_ws w \<Longrightarrow>
         json_parse Members
           (w @ encode_basestring (fst kv) @ '': '' @ encode level (snd kv)
            @ concat (map (\<lambda>kv. '','' @ newline_indent level @ encode_basestring (fst kv)
                                 @ '': '' @ encode level (snd kv)) kvs)
            @ newline_indent l @ ''}'' @ rest) = Some (JObj (kv # kvs), rest)"
proof (induction kvs arbitrary: kv w)
  case Nil
  let ?r = "newline_indent l @ ''}'' @ rest"
  let ?v = "'' '' @ encode level (snd kv) @ ?r"
  let ?m = "'':'' @ ?v"
  let ?s = "w @ encode_basestring (fst kv) @ ?m"
  have k: "take 1 (skip_ws ?s) = [CHR 0x22]"
    "drop 1 (skip_ws ?s) = tl (encode_basestring (fst kv)) @ ?m"
    using skip_ws_basestring [OF Nil.prems(2), of "fst kv" ?m] by simp_all
  have c: "json_chars (tl (encode_basestring (fst kv)) @ ?m) = Some (fst kv, ?m)"
    by (rule json_chars_basestring)
  have m: "take 1 (skip_ws ?m) = '':''" "drop 1 (skip_ws ?m) = ?v"
    by (simp_all add: skip_ws_def is_ws_def)
  have v: "json_parse Value ?v = Some (snd kv, ?r)"
    using Nil.prems(1) IH [of "snd kv" ?r level]
    by (simp add: parse_Value_space newline_indent_def)
  have "skip_ws ?r = ''}'' @ rest"
    using skip_ws_ws [OF ws_newline_indent, of l "''}'' @ rest"]
    by (simp add: skip_ws_def is_ws_def)
  then have r: "take 1 (skip_ws ?r) = ''}''" "drop 1 (skip_ws ?r) = rest"
    by simp_all
  have "json_parse Members ?s = Some (JObj [kv], rest)"
    unfolding parse_Members [of ?s] k c option.case prod.case m v bind.bind_lunit r
    by simp
  then show ?case
    by simp
next
  case (Cons y ys)
  let ?t = "newline_indent level @ encode_basestring (fst y) @ '': '' @ encode level (snd y)
            @ concat (map (\<lambda>kv. '','' @ newline_indent level @ encode_basestring (fst kv)
                                 @ '': '' @ encode level (snd kv)) ys)
            @ newline_indent l @ ''}'' @ rest"
  let ?r = "'','' @ ?t"
  let ?v = "'' '' @ encode level (snd kv) @ ?r"
  let ?m = "'':'' @ ?v"
  let ?s = "w @ encode_basestring (fst kv) @ ?m"
  have k: "take 1 (skip_ws ?s) = [CHR 0x22]"
    "drop 1 (skip_ws ?s) = tl (encode_basestring (fst kv)) @ ?m"
    using skip_ws_basestring [OF Cons.prems(2), of "fst kv" ?m] by simp_all
  have c: "json_chars (tl (encode_basestring (fst kv)) @ ?m) = Some (fst kv, ?m)"
    by (rule json_chars_basestring)
  have m: "take 1 (skip_ws ?m) = '':''" "drop 1 (skip_ws ?m) = ?v"
    by (simp_all add: skip_ws_def is_ws_def)
  have v: "json_parse Value ?v = Some (snd kv, ?r)"
    using Cons.prems(1) IH [of "snd kv" ?r level]
    by (simp add: parse_Value_space)
  have r: "take 1 (skip_ws ?r) = '',''" "drop 1 (skip_ws ?r) = ?t"
    by (simp_all add: skip_ws_def is_ws_def)
  have t: "json_parse Members ?t = Some (JObj (y # ys), rest)"
    using Cons.IH [of y "newline_indent level"] Cons.prems by (simp add: ws_newline_indent)
  have "json_parse Members ?s = Some (JObj (kv # y # ys), rest)"
    unfolding parse_Members [of ?s] k c option.case prod.case m v bind.bind_lunit r t
    by simp
  then show ?case
    by simp
qed

lemma parse_encode:
  "rest = [] \<or> hd rest = CHR '','' \<or> hd rest = CHR 0x0A \<Longrightarrow>
   json_parse Value (encode level v @ rest) = Some (v, rest)"
proof (induction v arbitrary: level rest)
  case JNull
  show ?case
    using parse_null [of rest] by simp
next
  case (JBool b)
  show ?case
    using parse_bool [of b rest] by simp
next
  case (JInt n)
  then show ?case
    by (simp add: parse_int)
next
  case (JStr s)
  show ?case
    by (simp add: parse_str)
next
  case (JArr xs)
  show ?case
  proof (cases xs)
    case Nil
    show ?thesis
      by (simp add: Nil encode_list parse_Value skip_ws_def is_ws_def)
  next
    case (Cons y ys)
    let ?t = "newline_indent (Suc level) @ encode (Suc level) y
              @ concat (map (\<lambda>y. '','' @ newline_indent (Suc level) @ encode (Suc level) y) ys)
              @ newline_indent level @ '']'' @ rest"
    have e: "encode level (JArr xs) @ rest = CHR ''['' # ?t"
      by (simp add: Cons encode_list)
    have n: "take 1 (skip_ws ?t) \<noteq> '']''"
      by (rule skip_ws_encode) (rule ws_newline_indent)
    have "json_parse Elements ?t = Some (JArr (y # ys), rest)"
      using JArr.IH by (intro parse_elements [where xs' = xs]) (simp_all add: Cons ws_newline_indent)
    then show ?thesis
      unfolding e using n by (subst parse_Value) (simp add: skip_ws_start is_ws_def Cons)
  qed
next
  case (JObj kvs)
  show ?case
  proof (cases kvs)
    case Nil
    show ?thesis
      by (simp add: Nil encode_dict parse_Value skip_ws_def is_ws_def)
  next
    case (Cons y ys)
    let ?t = "newline_indent (Suc level) @ encode_basestring (fst y) @ '': ''
              @ encode (Suc level) (snd y)
              @ concat (map (\<lambda>kv. '','' @ newline_indent (Suc level) @ encode_basestring (fst kv)
                                   @ '': '' @ encode (Suc level) (snd kv)) ys)
              @ newline_indent level @ ''}'' @ rest"
    have e: "encode level (JObj kvs) @ rest = CHR ''{'' # ?t"
      by (simp add: Cons encode_dict)
    have "take 1 (skip_ws ?t) = [CHR 0x22]"
      using skip_ws_basestring [OF ws_newline_indent, of "Suc level" "fst y"] by simp
    then have n: "take 1 (skip_ws ?t) \<noteq> ''}''"
      by simp
    have IH: "json_parse Value (encode level v @ rest) = Some (v, rest)"
      if "v \<in> snd ` set kvs" "rest = [] \<or> hd rest = CHR '','' \<or> hd rest = CHR 0x0A"
      for v level rest
    proof -
      from that(1) obtain kv where kv: "kv \<in> set kvs" "v = snd kv"
        by auto
      have "v \<in> Basic_BNFs.snds kv"
        unfolding kv(2) by (cases kv) simp
      then show ?thesis
        using JObj.IH [OF kv(1)] that(2) by simp
    qed
    have "json_parse Members ?t = Some (JObj (y # ys), rest)"
      using IH by (intro parse_members [where kvs' = kvs]) (simp_all add: Cons ws_newline_indent)
    then show ?thesis
      unfolding e using n by (subst parse_Value) (simp add: skip_ws_start is_ws_def Cons)
  qed
qed

lemma json_loads_dumps: "json_loads (json_dumps v) = Some v"
  using parse_encode [of "[]" 0 v] by (simp add: json_loads_def json_dumps_def skip_ws_def)

subsection \<open>Chunks the file accepts\<close>

lemma has_surrogate_Cons_ascii:
  "(of_char c :: nat) < 128 \<Longrightarrow> has_surrogate (c # cs) = has_surrogate cs"
  by (cases cs) auto

lemma has_surrogate_ascii_append:
  "\<forall>c \<in> set a. (of_char c :: nat) < 128 \<Longrightarrow> has_surrogate (a @ b) = has_surrogate b"
  by (induction a) (simp_all add: has_surrogate_Cons_ascii)

lemma has_surrogate_ascii: "\<forall>c \<in> set a. (of_char c :: nat) < 128 \<Longrightarrow> \<not> has_surrogate a"
  using has_surrogate_ascii_append [of a "[]"] by simp

lemma has_surrogate_snoc_ascii:
  "(of_char q :: nat) < 128 \<Longrightarrow> has_surrogate (a @ [q]) = has_surrogate a"
  by (induction a rule: has_surrogate.induct) simp_all

lemma hex_char_ascii: "d < 16 \<Longrightarrow> (of_char (hex_char d) :: nat) < 128"
proof -
  have "list_all (\<lambda>d. (of_char (hex_char d) :: nat) < 128) [0..<16]"
    by code_simp
  then show "d < 16 \<Longrightarrow> (of_char (hex_char d) :: nat) < 128"
    by (simp add: list_all_iff)
qed

lemma escape_char_cases:
  "escape_char c = [c] \<and> 32 \<le> (of_char c :: nat)
   \<or> (of_char c :: nat) < 128 \<and> (\<exists>e es. escape_char c = CHR 0x5C # e # es
        \<and> (\<forall>x \<in> set (e # es). (of_char x :: nat) < 128))"
proof (cases "c = CHR 0x22 \<or> c = CHR 0x5C \<or> c = CHR 0x0A \<or> c = CHR 0x0D \<or> c = CHR 0x09
              \<or> c = CHR 0x08 \<or> c = CHR 0x0C")
  case True
  then show ?thesis
    by (auto simp: escape_char_def)
next
  case named: False
  show ?thesis
  proof (cases "(of_char c :: nat) < 32")
    case True
    then have "escape_char c = [CHR 0x5C, CHR ''u'', CHR ''0'', CHR ''0'',
                      hex_char ((of_char c :: nat) div 16), hex_char ((of_char c :: nat) mod 16)]"
      using named by (simp add: escape_char_def)
    moreover have "(of_char (hex_char ((of_char c :: nat) div 16)) :: nat) < 128"
      "(of_char (hex_char ((of_char c :: nat) mod 16)) :: nat) < 128"
      using True by (simp_all add: hex_char_ascii)
    ultimately show ?thesis
      using True by simp
  next
    case False
    then show ?thesis
      using named by (simp add: escape_char_def)
  qed
qed

lemma has_surrogate_Cons:
  "has_surrogate (c # y) =
     ((c = CHR 0xED \<and> (\<exists>d ds. y = d # ds \<and> 160 \<le> (of_char d :: nat) \<and> (of_char d :: nat) \<le> 191))
      \<or> has_surrogate y)"
  by (cases y) auto

lemma escaped_trail:
  "(\<exists>d ds. concat (map escape_char s) @ x = d # ds
            \<and> 160 \<le> (of_char d :: nat) \<and> (of_char d :: nat) \<le> 191)
   = (\<exists>d ds. s @ x = d # ds \<and> 160 \<le> (of_char d :: nat) \<and> (of_char d :: nat) \<le> 191)"
proof (cases s)
  case Nil
  then show ?thesis
    by simp
next
  case (Cons c r)
  from escape_char_cases [of c] show ?thesis
  proof
    assume "escape_char c = [c] \<and> 32 \<le> (of_char c :: nat)"
    then show ?thesis
      by (simp add: Cons)
  next
    assume "(of_char c :: nat) < 128 \<and> (\<exists>e es. escape_char c = CHR 0x5C # e # es
        \<and> (\<forall>x \<in> set (e # es). (of_char x :: nat) < 128))"
    then show ?thesis
      by (auto simp: Cons)
  qed
qed

lemma has_surrogate_escaped:
  "has_surrogate (concat (map escape_char s) @ x) = has_surrogate (s @ x)"
proof (induction s)
  case Nil
  show ?case
    by simp
next
  case (Cons c r)
  from escape_char_cases [of c] show ?case
  proof
    assume a: "escape_char c = [c] \<and> 32 \<le> (of_char c :: nat)"
    have "has_surrogate (c # (concat (map escape_char r) @ x)) = has_surrogate (c # (r @ x))"
      unfolding has_surrogate_Cons [of c] escaped_trail Cons.IH ..
    then show ?thesis
      using a by simp
  next
    assume "(of_char c :: nat) < 128 \<and> (\<exists>e es. escape_char c = CHR 0x5C # e # es
        \<and> (\<forall>x \<in> set (e # es). (of_char x :: nat) < 128))"
    then obtain e es where c: "(of_char c :: nat) < 128" and e: "escape_char c = CHR 0x5C # e # es"
      and a: "\<forall>x \<in> set (CHR 0x5C # e # es). (of_char x :: nat) < 128"
      by auto
    have "has_surrogate ((CHR 0x5C # e # es) @ concat (map escape_char r) @ x)
            = has_surrogate (concat (map escape_char r) @ x)"
      using a by (rule has_surrogate_ascii_append)
    then show ?thesis
      using Cons.IH has_surrogate_Cons_ascii [OF c, of "r @ x"] by (simp add: e)
  qed
qed

lemma has_surrogate_basestring: "has_surrogate (encode_basestring s) = has_surrogate s"
proof -
  have "has_surrogate (encode_basestring s) = has_surrogate (concat (map escape_char s) @ [CHR 0x22])"
    unfolding encode_basestring_def by (rule has_surrogate_Cons_ascii) simp
  also have "\<dots> = has_surrogate (s @ [CHR 0x22])"
    by (rule has_surrogate_escaped)
  also have "\<dots> = has_surrogate s"
    by (rule has_surrogate_snoc_ascii) simp
  finally show ?thesis .
qed

lemma is_digit_ascii: "is_digit c \<Longrightarrow> (of_char c :: nat) < 128"
  by (simp add: is_digit_def)

lemma str_int_ascii: "\<forall>c \<in> set (str_int n). (of_char c :: nat) < 128"
proof (cases "n < 0")
  case True
  then have "list_all is_digit (str_nonneg (- n))"
    by (simp add: str_nonneg_digits)
  then show ?thesis
    using True by (auto simp: str_int_def list_all_iff is_digit_ascii)
next
  case False
  then have "list_all is_digit (str_nonneg n)"
    by (simp add: str_nonneg_digits)
  then show ?thesis
    using False by (auto simp: str_int_def list_all_iff is_digit_ascii)
qed

lemma newline_indent_ascii: "\<forall>c \<in> set (newline_indent level). (of_char c :: nat) < 128"
  by (auto simp: newline_indent_def)

lemma iterencode_chunks:
  "list_all (\<lambda>chunk. \<not> has_surrogate chunk) (iterencode level v) = utf8_ok v"
  "\<forall>c \<in> set buf. (of_char c :: nat) < 128 \<Longrightarrow>
   list_all (\<lambda>chunk. \<not> has_surrogate chunk) (iterencode_list level buf xs) = list_all utf8_ok xs"
  "\<forall>s \<in> set sep. \<forall>c \<in> set s. (of_char c :: nat) < 128 \<Longrightarrow>
   list_all (\<lambda>chunk. \<not> has_surrogate chunk) (iterencode_dict level sep kvs)
     = list_all (\<lambda>kv. \<not> has_surrogate (fst kv) \<and> utf8_ok (snd kv)) kvs"
proof (induction level v and level buf xs and level sep kvs
       rule: iterencode_iterencode_list_iterencode_dict.induct)
  case (1 level)
  show ?case
    by simp
next
  case (2 level b)
  show ?case
    by simp
next
  case (3 level n)
  show ?case
    using has_surrogate_ascii [OF str_int_ascii] by simp
next
  case (4 level s)
  show ?case
    by (simp add: has_surrogate_basestring)
next
  case (5 level xs)
  have a: "\<forall>c \<in> set (''['' @ newline_indent (Suc level)). (of_char c :: nat) < 128"
    using newline_indent_ascii by simp
  show ?case
    using 5 [OF _ a] has_surrogate_ascii [OF newline_indent_ascii] by (cases "xs = []") simp_all
next
  case (6 level kvs)
  show ?case
    using 6 has_surrogate_ascii [OF newline_indent_ascii] by (cases "kvs = []") simp_all
next
  case (7 level buf)
  show ?case
    by simp
next
  case (8 level buf x xs)
  have s: "\<forall>c \<in> set ('','' @ newline_indent level). (of_char c :: nat) < 128"
    using newline_indent_ascii by simp
  have r: "list_all (\<lambda>chunk. \<not> has_surrogate chunk)
             (iterencode_list level ('','' @ newline_indent level) xs) = list_all utf8_ok xs"
    using "8.IH"(3) s by simp
  show ?case
  proof (cases "is_container x")
    case True
    then show ?thesis
      using "8.IH"(1) r has_surrogate_ascii [OF "8.prems"] by simp
  next
    case False
    then obtain t where t: "iterencode level x = [t]"
      by (cases x) simp_all
    then have "(\<not> has_surrogate t) = utf8_ok x"
      using "8.IH"(2) False by simp
    then show ?thesis
      using False r has_surrogate_ascii_append [OF "8.prems", of t] by (simp add: t)
  qed
next
  case (9 level sep)
  show ?case
    by simp
next
  case (10 level sep kv kvs)
  have s: "\<forall>s \<in> set ['','' @ newline_indent level]. \<forall>c \<in> set s. (of_char c :: nat) < 128"
    using newline_indent_ascii by simp
  have "list_all (\<lambda>chunk. \<not> has_surrogate chunk) sep"
    using "10.prems" by (simp add: list_all_iff has_surrogate_ascii)
  then show ?case
    using "10.IH"(1) "10.IH"(2) [OF s] by (simp add: has_surrogate_basestring)
qed

subsection \<open>Writing the chunks\<close>

lemma write_chunks_result:
  "files w p = Some old \<Longrightarrow>
   write_chunks p chunks w =
     (if list_all (\<lambda>chunk. \<not> has_surrogate chunk) chunks then Inr () else Inl UnicodeEncodeError,
      w\<lparr>files := (files w)(p \<mapsto> old @ concat (takeWhile (\<lambda>chunk. \<not> has_surrogate chunk) chunks))\<rparr>)"
proof (induction chunks arbitrary: w old)
  case Nil
  then have "(files w)(p \<mapsto> old) = files w"
    by auto
  then show ?case
    by simp
next
  case (Cons chunk chunks)
  show ?case
  proof (cases "has_surrogate chunk")
    case True
    from Cons.prems have "(files w)(p \<mapsto> old) = files w"
      by auto
    then show ?thesis
      using True by simp
  next
    case False
    let ?w' = "w\<lparr>files := (files w)(p \<mapsto> old @ chunk)\<rparr>"
    have wt: "write_text p chunk w = ?w'"
      using Cons.prems by (simp add: write_text_def)
    have f: "files ?w' p = Some (old @ chunk)"
      by simp
    have e: "?w'\<lparr>files := (files ?w')(p \<mapsto> x)\<rparr> = w\<lparr>files := (files w)(p \<mapsto> x)\<rparr>" for x
      by simp
    have "write_chunks p (chunk # chunks) w = write_chunks p chunks ?w'"
      using False by (simp add: wt)
    also note Cons.IH [OF f]
    finally have r: "write_chunks p (chunk # chunks) w =
      (if list_all (\<lambda>chunk. \<not> has_surrogate chunk) chunks then Inr () else Inl UnicodeEncodeError,
       w\<lparr>files := (files w)(p \<mapsto> (old @ chunk)
                 @ concat (takeWhile (\<lambda>chunk. \<not> has_surrogate chunk) chunks))\<rparr>)"
      unfolding e .
    have t: "takeWhile (\<lambda>chunk. \<not> has_surrogate chunk) (chunk # chunks)
               = chunk # takeWhile (\<lambda>chunk. \<not> has_surrogate chunk) chunks"
      and l: "list_all (\<lambda>chunk. \<not> has_surrogate chunk) (chunk # chunks)
               = list_all (\<lambda>chunk. \<not> has_surrogate chunk) chunks"
      using False by simp_all
    have c: "old @ concat (chunk # takeWhile (\<lambda>chunk. \<not> has_surrogate chunk) chunks)
               = (old @ chunk) @ concat (takeWhile (\<lambda>chunk. \<not> has_surrogate chunk) chunks)"
      by simp
    show ?thesis
      unfolding r t l c ..
  qed
qed

lemma write_json_result:
  assumes "fs_ok w" "\<not> below_a_file w p" "\<not> is_dir w p"
  shows "write_json atts p w =
     (if list_all utf8_ok atts then
        (Inr (),
         w\<lparr>dirs := dirs w \<union> (set (ancestors (parent p)) - {[]}),
           files := (files w)(p \<mapsto> json_dumps (JArr atts)),
           stdout := stdout w @ [''Wrote '' @ str_int (int (length atts)) @ '' entries to ''
                                   @ path_str p]\<rparr>)
      else
        (Inl UnicodeEncodeError,
         w\<lparr>dirs := dirs w \<union> (set (ancestors (parent p)) - {[]}),
           files := (files w)(p \<mapsto> concat (takeWhile (\<lambda>chunk. \<not> has_surrogate chunk)
                                                (iterencode 0 (JArr atts))))\<rparr>))"
proof -
  from assms(3) have "p \<noteq> []"
    by (auto simp: is_dir_def)
  then obtain q c where p: "p = q @ [c]"
    by (cases p rule: rev_cases) auto
  let ?w1 = "w\<lparr>dirs := dirs w \<union> (set (ancestors q) - {[]})\<rparr>"
  let ?w2 = "?w1\<lparr>files := (files ?w1)(p \<mapsto> [])\<rparr>"
  from assms(2) have nb: "\<not> below_a_file w q" and nf: "q \<notin> dom (files w)"
    by (simp_all add: p below_a_file_snoc)
  have m: "mkdir_parents q w = Inr ?w1"
    using assms(1) nb nf by (rule mkdir_parents_ok)
  have b1: "\<not> below_a_file ?w1 p"
    using assms(2) by (simp add: below_a_file_def)
  have d1: "\<not> is_dir ?w1 p"
    using assms(3) snoc_not_ancestor [of q c] by (simp add: is_dir_def p)
  have p1: "is_dir ?w1 q"
    using self_ancestor [of q] by (auto simp: is_dir_def)
  have o: "open_w p ?w1 = Inr ?w2"
    using b1 d1 p1 by (simp add: open_w_def parent_def p)
  have "files ?w2 p = Some []"
    by simp
  note c = write_chunks_result [OF this, of "iterencode 0 (JArr atts)"]
  have u: "list_all (\<lambda>chunk. \<not> has_surrogate chunk) (iterencode 0 (JArr atts)) = list_all utf8_ok atts"
    using iterencode_chunks(1) [of 0 "JArr atts"] by simp
  have t: "list_all utf8_ok atts \<Longrightarrow>
           concat (takeWhile (\<lambda>chunk. \<not> has_surrogate chunk) (iterencode 0 (JArr atts)))
             = json_dumps (JArr atts)"
    unfolding u [symmetric] by (simp add: list_all_iff json_dumps_def encode_def)
  have m': "mkdir_parents (parent p) w = Inr ?w1"
    using m by (simp add: parent_def p)
  show ?thesis
  proof (cases "list_all utf8_ok atts")
    case True
    show ?thesis
      unfolding write_json_def m' sum.case o c u
      using True t by (simp add: parent_def p print_def)
  next
    case False
    show ?thesis
      unfolding write_json_def m' sum.case o c u
      using False by (simp add: parent_def p)
  qed
qed

subsection \<open>The output file\<close>

lemma str_int_0: "str_int 0 = ''0''"
  by code_simp

lemma str_int_100: "str_int 100 = ''100''"
  by code_simp

lemma main_empty_array:
  assumes "environ w ''DISCORD_BOT_TOKEN'' = Some token" "token \<noteq> []"
    and "environ w ''DISCORD_CHANNEL_ID'' = Some channel_id" "channel_id \<noteq> []"
    and "srv (fetch_request token channel_id 100) = Inr response"
    and "status_code response = 200" "body_json response = Inr (JArr [])"
    and "fs_ok w" "\<not> below_a_file w (script_dir @ [''docs'', ''files.json''])"
      "\<not> is_dir w (script_dir @ [''docs'', ''files.json''])"
  shows "main fromiso srv script_dir w =
     (Inr (),
      w\<lparr>sent := sent w @ [fetch_request token channel_id 100],
        dirs := dirs w \<union> (set (ancestors (script_dir @ [''docs''])) - {[]}),
        files := (files w)(script_dir @ [''docs'', ''files.json''] \<mapsto> ''[]''),
        stdout := stdout w @
          [replicate 50 CHR ''='', ''Discord File Sync Script'', replicate 50 CHR ''='',
           ''Fetching up to 100 messages from channel '' @ channel_id @ ''...'',
           ''Successfully fetched 0 messages'', ''Extracted 0 attachments'',
           ''Wrote 0 entries to '' @ path_str (script_dir @ [''docs'', ''files.json'']),
           replicate 50 CHR ''='', ''Sync complete!'', replicate 50 CHR ''='']\<rparr>)"
proof -
  let ?out = "script_dir @ [''docs'', ''files.json'']"
  let ?w0 = "banner (print ''Discord File Sync Script'' (banner w))"
  let ?w2 = "w\<lparr>sent := sent w @ [fetch_request token channel_id 100],
        stdout := stdout w @
          [replicate 50 CHR ''='', ''Discord File Sync Script'', replicate 50 CHR ''='',
           ''Fetching up to 100 messages from channel '' @ channel_id @ ''...'',
           ''Successfully fetched 0 messages'']\<rparr>"
  let ?w3 = "print (''Extracted '' @ str_int (int (length ([] :: json list))) @ '' attachments'') ?w2"
  have f: "fetch_messages srv token channel_id 100 ?w0 = (Inr (JArr []), ?w2)"
    using assms(6,7)
    by (simp add: fetch_messages_status [of srv token channel_id 100 response, OF assms(5)]
        Let_def banner_def print_def str_int_0 str_int_100)
  have ok: "fs_ok ?w3" "\<not> below_a_file ?w3 ?out" "\<not> is_dir ?w3 ?out"
    using assms(8-10) by (simp_all add: fs_ok_def below_a_file_def is_dir_def print_def)
  have wj: "write_json [] ?out ?w3 =
     (Inr (),
      ?w3\<lparr>dirs := dirs ?w3 \<union> (set (ancestors (parent ?out)) - {[]}),
        files := (files ?w3)(?out \<mapsto> json_dumps (JArr [])),
        stdout := stdout ?w3 @ [''Wrote '' @ str_int (int (length ([] :: json list)))
                                @ '' entries to '' @ path_str ?out]\<rparr>)"
    using write_json_result [OF ok, of "[]"] by simp
  have par: "parent ?out = script_dir @ [''docs'']"
    by (simp add: parent_def butlast_append)
  have ex: "extract_attachments (JArr []) = Inr []"
    by (simp add: extract_attachments_def)
  have so: "sort_attachments fromiso [] = Inr []"
    by (simp add: sort_attachments_def sorted_reverse_def mixed_keys_def sort_desc_def)
  have step: "main fromiso srv script_dir w =
     (case write_json [] ?out ?w3 of
        (Inl e, w4) \<Rightarrow> (Inl e, w4)
      | (Inr u, w4) \<Rightarrow> (Inr (), banner (print ''Sync complete!'' (banner w4))))"
    by (simp only: main_def Let_def get_env_vars_set [OF assms(1-4)] prod.case sum.case f ex so)
  show ?thesis
    unfolding step wj prod.case sum.case
    by (simp add: banner_def print_def par json_dumps_def encode_list str_int_0)
qed

lemma escape_char_plain:
  assumes "32 \<le> (of_char c :: nat)" "c \<noteq> CHR 0x22" "c \<noteq> CHR 0x5C"
  shows "escape_char c = [c]"
proof -
  have "c \<noteq> k" if "(of_char k :: nat) < 32" for k
    using assms(1) that by auto
  then have "c \<noteq> CHR 0x0A" "c \<noteq> CHR 0x0D" "c \<noteq> CHR 0x09" "c \<noteq> CHR 0x08" "c \<noteq> CHR 0x0C"
    by simp_all
  moreover have "\<not> (of_char c :: nat) < 32"
    using assms(1) by simp
  ultimately show ?thesis
    using assms(2,3) by (simp only: escape_char_def if_False)
qed

lemma escape_char_non_ascii: "128 \<le> (of_char c :: nat) \<Longrightarrow> escape_char c = [c]"
proof -
  assume a: "128 \<le> (of_char c :: nat)"
  have "c \<noteq> k" if "(of_char k :: nat) < 128" for k
    using a that by auto
  then have "c \<noteq> CHR 0x22" "c \<noteq> CHR 0x5C"
    by simp_all
  then show ?thesis
    using a by (intro escape_char_plain) simp_all
qed

lemma json_dumps_list:
  "json_dumps (JArr []) = ''[]''"
  "json_dumps (JArr (r # rs)) =
     ''['' @ [CHR 0x0A, CHR '' '', CHR '' ''] @ encode 1 r
     @ concat (map (\<lambda>x. '','' @ [CHR 0x0A, CHR '' '', CHR '' ''] @ encode 1 x) rs)
     @ [CHR 0x0A] @ '']''"
  by (simp_all add: json_dumps_def encode_list newline_indent_def numeral_2_eq_2)

lemma encode_keys:
  "encode_basestring ''name'' = CHR 0x22 # ''name'' @ [CHR 0x22]"
  "encode_basestring ''url'' = CHR 0x22 # ''url'' @ [CHR 0x22]"
  "encode_basestring ''uploaded_at'' = CHR 0x22 # ''uploaded_at'' @ [CHR 0x22]"
  "encode_basestring ''author'' = CHR 0x22 # ''author'' @ [CHR 0x22]"
  "encode_basestring ''size'' = CHR 0x22 # ''size'' @ [CHR 0x22]"
  "encode_basestring ''content_type'' = CHR 0x22 # ''content_type'' @ [CHR 0x22]"
  by code_simp+

lemma encode_record:
  "encode level (JObj [(''name'', n), (''url'', u), (''uploaded_at'', t), (''author'', a),
                       (''size'', s), (''content_type'', c)])
   = ''{'' @ newline_indent (Suc level)
     @ (CHR 0x22 # ''name'' @ [CHR 0x22]) @ '': '' @ encode (Suc level) n
     @ '','' @ newline_indent (Suc level)
     @ (CHR 0x22 # ''url'' @ [CHR 0x22]) @ '': '' @ encode (Suc level) u
     @ '','' @ newline_indent (Suc level)
     @ (CHR 0x22 # ''uploaded_at'' @ [CHR 0x22]) @ '': '' @ encode (Suc level) t
     @ '','' @ newline_indent (Suc level)
     @ (CHR 0x22 # ''author'' @ [CHR 0x22]) @ '': '' @ encode (Suc level) a
     @ '','' @ newline_indent (Suc level)
     @ (CHR 0x22 # ''size'' @ [CHR 0x22]) @ '': '' @ encode (Suc level) s
     @ '','' @ newline_indent (Suc level)
     @ (CHR 0x22 # ''content_type'' @ [CHR 0x22]) @ '': '' @ encode (Suc level) c
     @ newline_indent level @ ''}''"
  by (simp add: encode_dict encode_keys)

text \<open>
  C8. On a consistent file system where the destination is not a directory and no file
  stands in the place of a directory above it, and for a list none of whose strings has
  a surrogate, the writer succeeds: afterwards the destination holds the serialisation
  of the list whatever it held before, and that text is JSON and denotes the list as an
  array; no other file has changed; every directory above the destination exists (the
  missing ones have been created, and no other); the number of entries has been
  printed. The serialisation of the empty list is \<^verbatim>\<open>[]\<close>; the items of a non-empty list
  stand on lines indented by two spaces, separated by commas; the keys of a record come
  in the order name, url, uploaded_at, author, size, content_type, two spaces deeper
  than the record; a string stands between quotes, with a backslash before a quote and
  before a backslash, and every other character from \<^verbatim>\<open>0x20\<close> on, the characters outside
  ASCII among them, written as it is. When the API answers 200 with an empty array, the
  process writes \<^verbatim>\<open>[]\<close> to the output file and reports 0 entries.
\<close>

theorem write_json_output:
  assumes "fs_ok w" "\<not> below_a_file w output_path" "\<not> is_dir w output_path"
    and "list_all utf8_ok attachments"
  shows "fst (write_json attachments output_path w) = Inr ()
       \<and> files (snd (write_json attachments output_path w)) output_path
           = Some (json_dumps (JArr attachments))
       \<and> json_loads (json_dumps (JArr attachments)) = Some (JArr attachments)
       \<and> (\<forall>p. p \<noteq> output_path \<longrightarrow>
             files (snd (write_json attachments output_path w)) p = files w p)
       \<and> (\<forall>d \<in> set (ancestors (parent output_path)).
             is_dir (snd (write_json attachments output_path w)) d)
       \<and> dirs (snd (write_json attachments output_path w))
           = dirs w \<union> (set (ancestors (parent output_path)) - {[]})
       \<and> stdout (snd (write_json attachments output_path w))
           = stdout w @ [''Wrote '' @ str_int (int (length attachments)) @ '' entries to ''
                          @ path_str output_path]
       \<and> json_dumps (JArr []) = ''[]''
       \<and> (\<forall>r rs. json_dumps (JArr (r # rs)) =
             ''['' @ [CHR 0x0A, CHR '' '', CHR '' ''] @ encode 1 r
             @ concat (map (\<lambda>x. '','' @ [CHR 0x0A, CHR '' '', CHR '' ''] @ encode 1 x) rs)
             @ [CHR 0x0A] @ '']'')
       \<and> (\<forall>level n u t a s c.
             encode level (JObj [(''name'', n), (''url'', u), (''uploaded_at'', t),
                                 (''author'', a), (''size'', s), (''content_type'', c)])
             = ''{'' @ newline_indent (Suc level)
               @ (CHR 0x22 # ''name'' @ [CHR 0x22]) @ '': '' @ encode (Suc level) n
               @ '','' @ newline_indent (Suc level)
               @ (CHR 0x22 # ''url'' @ [CHR 0x22]) @ '': '' @ encode (Suc level) u
               @ '','' @ newline_indent (Suc level)
               @ (CHR 0x22 # ''uploaded_at'' @ [CHR 0x22]) @ '': '' @ encode (Suc level) t
               @ '','' @ newline_indent (Suc level)
               @ (CHR 0x22 # ''author'' @ [CHR 0x22]) @ '': '' @ encode (Suc level) a
               @ '','' @ newline_indent (Suc level)
               @ (CHR 0x22 # ''size'' @ [CHR 0x22]) @ '': '' @ encode (Suc level) s
               @ '','' @ newline_indent (Suc level)
               @ (CHR 0x22 # ''content_type'' @ [CHR 0x22]) @ '': '' @ encode (Suc level) c
               @ newline_indent level @ ''}'')
       \<and> (\<forall>level. newline_indent level = CHR 0x0A # replicate (2 * level) CHR '' '')
       \<and> (\<forall>level s. encode level (JStr s) = CHR 0x22 # concat (map escape_char s) @ [CHR 0x22])
       \<and> escape_char (CHR 0x22) = [CHR 0x5C, CHR 0x22]
       \<and> escape_char (CHR 0x5C) = [CHR 0x5C, CHR 0x5C]
       \<and> (\<forall>c. 32 \<le> (of_char c :: nat) \<and> c \<noteq> CHR 0x22 \<and> c \<noteq> CHR 0x5C \<longrightarrow> escape_char c = [c])
       \<and> (\<forall>c. 128 \<le> (of_char c :: nat) \<longrightarrow> escape_char c = [c])
       \<and> (\<forall>fromiso srv script_dir token channel_id response.
             environ w ''DISCORD_BOT_TOKEN'' = Some token \<and> token \<noteq> []
             \<and> environ w ''DISCORD_CHANNEL_ID'' = Some channel_id \<and> channel_id \<noteq> []
             \<and> srv (fetch_request token channel_id 100) = Inr response
             \<and> status_code response = 200 \<and> body_json response = Inr (JArr [])
             \<and> output_path = script_dir @ [''docs'', ''files.json'']
           \<longrightarrow> fst (main fromiso srv script_dir w) = Inr ()
             \<and> files (snd (main fromiso srv script_dir w)) output_path = Some ''[]''
             \<and> stdout (snd (main fromiso srv script_dir w)) =
                 stdout w @
                 [replicate 50 CHR ''='', ''Discord File Sync Script'', replicate 50 CHR ''='',
                  ''Fetching up to 100 messages from channel '' @ channel_id @ ''...'',
                  ''Successfully fetched 0 messages'', ''Extracted 0 attachments'',
                  ''Wrote 0 entries to '' @ path_str output_path,
                  replicate 50 CHR ''='', ''Sync complete!'', replicate 50 CHR ''=''])"
proof -
  have wj: "write_json attachments output_path w =
        (Inr (),
         w\<lparr>dirs := dirs w \<union> (set (ancestors (parent output_path)) - {[]}),
           files := (files w)(output_path \<mapsto> json_dumps (JArr attachments)),
           stdout := stdout w @ [''Wrote '' @ str_int (int (length attachments))
                                   @ '' entries to '' @ path_str output_path]\<rparr>)"
    using write_json_result [OF assms(1-3), of attachments] assms(4) by simp
  have 1: "fst (write_json attachments output_path w) = Inr ()"
    by (simp add: wj)
  have 2: "files (snd (write_json attachments output_path w)) output_path
           = Some (json_dumps (JArr attachments))"
    by (simp add: wj)
  have 3: "\<forall>p. p \<noteq> output_path \<longrightarrow>
             files (snd (write_json attachments output_path w)) p = files w p"
    by (simp add: wj)
  have 5: "dirs (snd (write_json attachments output_path w))
           = dirs w \<union> (set (ancestors (parent output_path)) - {[]})"
    by (simp add: wj)
  have 4: "\<forall>d \<in> set (ancestors (parent output_path)).
             is_dir (snd (write_json attachments output_path w)) d"
    by (auto simp: is_dir_def 5)
  have 6: "stdout (snd (write_json attachments output_path w))
           = stdout w @ [''Wrote '' @ str_int (int (length attachments)) @ '' entries to ''
                          @ path_str output_path]"
    by (simp add: wj)
  have 7: "\<forall>level s. encode level (JStr s) = CHR 0x22 # concat (map escape_char s) @ [CHR 0x22]"
    by (simp add: encode_basestring_def)
  have 8: "fst (main fromiso srv script_dir w) = Inr ()
             \<and> files (snd (main fromiso srv script_dir w)) output_path = Some ''[]''
             \<and> stdout (snd (main fromiso srv script_dir w)) =
                 stdout w @
                 [replicate 50 CHR ''='', ''Discord File Sync Script'', replicate 50 CHR ''='',
                  ''Fetching up to 100 messages from channel '' @ channel_id @ ''...'',
                  ''Successfully fetched 0 messages'', ''Extracted 0 attachments'',
                  ''Wrote 0 entries to '' @ path_str output_path,
                  replicate 50 CHR ''='', ''Sync complete!'', replicate 50 CHR ''='']"
    if "environ w ''DISCORD_BOT_TOKEN'' = Some token" "token \<noteq> []"
      "environ w ''DISCORD_CHANNEL_ID'' = Some channel_id" "channel_id \<noteq> []"
      "srv (fetch_request token channel_id 100) = Inr response"
      "status_code response = 200" "body_json response = Inr (JArr [])"
      "output_path = script_dir @ [''docs'', ''files.json'']"
    for fromiso srv script_dir token channel_id response
  proof -
    have "main fromiso srv script_dir w =
     (Inr (),
      w\<lparr>sent := sent w @ [fetch_request token channel_id 100],
        dirs := dirs w \<union> (set (ancestors (script_dir @ [''docs''])) - {[]}),
        files := (files w)(script_dir @ [''docs'', ''files.json''] \<mapsto> ''[]''),
        stdout := stdout w @
          [replicate 50 CHR ''='', ''Discord File Sync Script'', replicate 50 CHR ''='',
           ''Fetching up to 100 messages from channel '' @ channel_id @ ''...'',
           ''Successfully fetched 0 messages'', ''Extracted 0 attachments'',
           ''Wrote 0 entries to '' @ path_str (script_dir @ [''docs'', ''files.json'']),
           replicate 50 CHR ''='', ''Sync complete!'', replicate 50 CHR ''='']\<rparr>)"
      using that(1-7) assms(1-3) unfolding that(8) by (rule main_empty_array)
    then show ?thesis
      by (simp add: that(8))
  qed
  have 9: "escape_char (CHR 0x22) = [CHR 0x5C, CHR 0x22]"
    "escape_char (CHR 0x5C) = [CHR 0x5C, CHR 0x5C]"
    by (simp_all add: escape_char_def)
  have 10: "\<forall>c. 32 \<le> (of_char c :: nat) \<and> c \<noteq> CHR 0x22 \<and> c \<noteq> CHR 0x5C \<longrightarrow> escape_char c = [c]"
    using escape_char_plain by blast
  show ?thesis
    using 1 2 3 4 5 6 7 8 9 10 json_loads_dumps json_dumps_list encode_record escape_char_non_ascii
    by (simp only: newline_indent_def) blast
qed

theorem write_json_output_witness:
  "fs_ok world1
   \<and> \<not> below_a_file world1 [''repo'', ''docs'', ''files.json'']
   \<and> \<not> is_dir world1 [''repo'', ''docs'', ''files.json'']
   \<and> list_all utf8_ok [rec_quoted, rec_january]
   \<and> files world1 [''repo'', ''docs'', ''files.json''] = Some ''[]''
   \<and> fst (write_json [rec_quoted, rec_january] [''repo'', ''docs'', ''files.json''] world1) = Inr ()
   \<and> files (snd (write_json [rec_quoted, rec_january] [''repo'', ''docs'', ''files.json''] world1))
        [''repo'', ''docs'', ''files.json''] = Some (json_dumps (JArr [rec_quoted, rec_january]))
   \<and> json_loads (json_dumps (JArr [rec_quoted, rec_january])) = Some (JArr [rec_quoted, rec_january])
   \<and> files (snd (write_json [rec_quoted, rec_january] [''repo'', ''docs'', ''files.json''] world1))
        [''repo'', ''discord_sync.py''] = Some ''#!/usr/bin/env python3''
   \<and> stdout (snd (write_json [rec_quoted, rec_january] [''repo'', ''docs'', ''files.json''] world1))
        = [''Wrote 2 entries to /repo/docs/files.json'']
   \<and> encode 2 (JStr (''a'' @ [CHR 0x22] @ ''b'' @ [CHR 0x5C, CHR 0x0A, CHR 0xC3, CHR 0xA9]))
        = [CHR 0x22, CHR ''a'', CHR 0x5C, CHR 0x22, CHR ''b'', CHR 0x5C, CHR 0x5C, CHR 0x5C, CHR ''n'',
           CHR 0xC3, CHR 0xA9, CHR 0x22]
   \<and> escape_char (CHR 0xC3) = [CHR 0xC3]
   \<and> fst (main fromisoformat (server_ok []) [''repo''] world1) = Inr ()
   \<and> files (snd (main fromisoformat (server_ok []) [''repo''] world1))
        [''repo'', ''docs'', ''files.json''] = Some ''[]''
   \<and> stdout (snd (main fromisoformat (server_ok []) [''repo''] world1)) =
        [replicate 50 CHR ''='', ''Discord File Sync Script'', replicate 50 CHR ''='',
         ''Fetching up to 100 messages from channel 42...'',
         ''Successfully fetched 0 messages'', ''Extracted 0 attachments'',
         ''Wrote 0 entries to /repo/docs/files.json'',
         replicate 50 CHR ''='', ''Sync complete!'', replicate 50 CHR ''='']"
proof -
  let ?out = "[''repo'', ''docs'', ''files.json'']"
  have a: "fs_ok world1"
    by (simp add: fs_ok_def world1_def world0_def is_dir_def parent_def)
  have u: "[0..<length ?out] = [0, 1, 2]"
    by code_simp
  have b: "\<not> below_a_file world1 ?out"
    unfolding below_a_file_def u by (simp add: domIff world1_def world0_def)
  have c: "\<not> is_dir world1 ?out"
    by (simp add: is_dir_def world1_def)
  have d: "list_all utf8_ok [rec_quoted, rec_january]"
    by code_simp
  have e: "files world1 ?out = Some ''[]''" "stdout world1 = []"
    "files world1 [''repo'', ''discord_sync.py''] = Some ''#!/usr/bin/env python3''"
    by (simp_all add: world1_def world0_def)
  have s: "str_int 2 = ''2''"
    by code_simp
  have p: "path_str ?out = ''/repo/docs/files.json''"
    by (simp add: path_str_def)
  note th = write_json_output [OF a b c d]
  note t1 = th [THEN conjunct1]
  note t2 = th [THEN conjunct2, THEN conjunct1]
  note t3 = th [THEN conjunct2, THEN conjunct2, THEN conjunct1]
  have t4: "files (snd (write_json [rec_quoted, rec_january] ?out world1))
        [''repo'', ''discord_sync.py''] = Some ''#!/usr/bin/env python3''"
    using th [THEN conjunct2, THEN conjunct2, THEN conjunct2, THEN conjunct1, rule_format,
        of "[''repo'', ''discord_sync.py'']"]
    by (simp add: e)
  have t7: "stdout (snd (write_json [rec_quoted, rec_january] ?out world1))
        = [''Wrote 2 entries to /repo/docs/files.json'']"
    using th [THEN conjunct2, THEN conjunct2, THEN conjunct2, THEN conjunct2, THEN conjunct2,
        THEN conjunct2, THEN conjunct1]
    by (simp add: e s p)
  have x: "encode 2 (JStr (''a'' @ [CHR 0x22] @ ''b'' @ [CHR 0x5C, CHR 0x0A, CHR 0xC3, CHR 0xA9]))
        = [CHR 0x22, CHR ''a'', CHR 0x5C, CHR 0x22, CHR ''b'', CHR 0x5C, CHR 0x5C, CHR 0x5C, CHR ''n'',
           CHR 0xC3, CHR 0xA9, CHR 0x22]"
    by code_simp
  have y: "escape_char (CHR 0xC3) = [CHR 0xC3]"
    by code_simp
  have m: "fst (main fromisoformat (server_ok []) [''repo''] world1) = Inr ()"
    "files (snd (main fromisoformat (server_ok []) [''repo''] world1)) ?out = Some ''[]''"
    "stdout (snd (main fromisoformat (server_ok []) [''repo''] world1)) =
        [replicate 50 CHR ''='', ''Discord File Sync Script'', replicate 50 CHR ''='',
         ''Fetching up to 100 messages from channel 42...'',
         ''Successfully fetched 0 messages'', ''Extracted 0 attachments'',
         ''Wrote 0 entries to /repo/docs/files.json'',
         replicate 50 CHR ''='', ''Sync complete!'', replicate 50 CHR ''='']"
    by code_simp+
  show ?thesis
    using a b c d e(1) t1 t2 t3 t4 t7 x y m by blast
qed

text \<open>
  C8, as the specification states it, for every list: it fails on the list of the one
  record whose name has a surrogate on its own. The file system is as the theorem
  above asks, and the destination holds \<^verbatim>\<open>[]\<close> from an earlier run. The writer raises
  UnicodeEncodeError on the chunk of the name and reports nothing; the destination is
  left with the chunks written before, which are not the serialisation of the list and
  not JSON. The same happens when the record comes from the API through \<open>main\<close>.
\<close>

theorem write_json_lone_surrogate:
  "fs_ok world1
   \<and> \<not> below_a_file world1 [''repo'', ''docs'', ''files.json'']
   \<and> \<not> is_dir world1 [''repo'', ''docs'', ''files.json'']
   \<and> files world1 [''repo'', ''docs'', ''files.json''] = Some ''[]''
   \<and> fst (write_json [rec_surrogate] [''repo'', ''docs'', ''files.json''] world1)
        = Inl UnicodeEncodeError
   \<and> files (snd (write_json [rec_surrogate] [''repo'', ''docs'', ''files.json''] world1))
        [''repo'', ''docs'', ''files.json'']
        = Some (''['' @ [CHR 0x0A] @ ''  {'' @ [CHR 0x0A] @ ''    '' @ [CHR 0x22] @ ''name''
                @ [CHR 0x22] @ '': '')
   \<and> ''['' @ [CHR 0x0A] @ ''  {'' @ [CHR 0x0A] @ ''    '' @ [CHR 0x22] @ ''name'' @ [CHR 0x22] @ '': ''
        \<noteq> json_dumps (JArr [rec_surrogate])
   \<and> json_loads (''['' @ [CHR 0x0A] @ ''  {'' @ [CHR 0x0A] @ ''    '' @ [CHR 0x22] @ ''name''
                   @ [CHR 0x22] @ '': '') = None
   \<and> stdout (snd (write_json [rec_surrogate] [''repo'', ''docs'', ''files.json''] world1)) = []
   \<and> extract_attachments (JArr [msg_surrogate]) = Inr [rec_surrogate]
   \<and> sort_attachments fromisoformat [rec_surrogate] = Inr [rec_surrogate]
   \<and> fst (main fromisoformat (server_ok [msg_surrogate]) [''repo''] world1)
        = Inl UnicodeEncodeError
   \<and> files (snd (main fromisoformat (server_ok [msg_surrogate]) [''repo''] world1))
        [''repo'', ''docs'', ''files.json'']
        = Some (''['' @ [CHR 0x0A] @ ''  {'' @ [CHR 0x0A] @ ''    '' @ [CHR 0x22] @ ''name''
                @ [CHR 0x22] @ '': '')"
proof -
  let ?out = "[''repo'', ''docs'', ''files.json'']"
  have a: "fs_ok world1"
    by (simp add: fs_ok_def world1_def world0_def is_dir_def parent_def)
  have u: "[0..<length ?out] = [0, 1, 2]"
    by code_simp
  have b: "\<not> below_a_file world1 ?out"
    unfolding below_a_file_def u by (simp add: domIff world1_def world0_def)
  have c: "\<not> is_dir world1 ?out"
    by (simp add: is_dir_def world1_def)
  have d: "files world1 ?out = Some ''[]''"
    by (simp add: world1_def)
  have e: "fst (write_json [rec_surrogate] ?out world1) = Inl UnicodeEncodeError"
    by code_simp
  have f: "files (snd (write_json [rec_surrogate] ?out world1)) ?out
        = Some (''['' @ [CHR 0x0A] @ ''  {'' @ [CHR 0x0A] @ ''    '' @ [CHR 0x22] @ ''name''
                @ [CHR 0x22] @ '': '')"
    by code_simp
  have g: "''['' @ [CHR 0x0A] @ ''  {'' @ [CHR 0x0A] @ ''    '' @ [CHR 0x22] @ ''name'' @ [CHR 0x22] @ '': ''
        \<noteq> json_dumps (JArr [rec_surrogate])"
    by code_simp
  have h: "json_loads (''['' @ [CHR 0x0A] @ ''  {'' @ [CHR 0x0A] @ ''    '' @ [CHR 0x22] @ ''name''
                   @ [CHR 0x22] @ '': '') = None"
    by code_simp
  have i: "stdout (snd (write_json [rec_surrogate] ?out world1)) = []"
    by code_simp
  have j: "extract_attachments (JArr [msg_surrogate]) = Inr [rec_surrogate]"
    by code_simp
  have k: "sort_attachments fromisoformat [rec_surrogate] = Inr [rec_surrogate]"
    by code_simp
  have l: "fst (main fromisoformat (server_ok [msg_surrogate]) [''repo''] world1)
        = Inl UnicodeEncodeError"
    by code_simp
  have m: "files (snd (main fromisoformat (server_ok [msg_surrogate]) [''repo''] world1)) ?out
        = Some (''['' @ [CHR 0x0A] @ ''  {'' @ [CHR 0x0A] @ ''    '' @ [CHR 0x22] @ ''name''
                @ [CHR 0x22] @ '': '')"
    by code_simp
  show ?thesis
    using a b c d e f g h i j k l m by blast
qed


end
